theory Spec2Isabelle
  imports Main "HOL-Library.Sublist" "HOL-Library.Finite_Map"
begin

section \<open>Strings, decimal rendering and the two regular expressions\<close>

text \<open>
  JavaScript strings are modelled as \<open>string\<close> (lists of characters). The newline
  character is written \<open>NL\<close>.
\<close>

abbreviation NL :: char where
  "NL \<equiv> CHR 0x0A"

text \<open>Splitting a string at every occurrence of a character, and the inverse.\<close>

fun split_on :: "char \<Rightarrow> string \<Rightarrow> string list" where
  "split_on d [] = [[]]"
| "split_on d (c # cs) =
     (if c = d then [] # split_on d cs
      else (case split_on d cs of [] \<Rightarrow> [[c]] | s # ss \<Rightarrow> (c # s) # ss))"

fun join_with :: "char \<Rightarrow> string list \<Rightarrow> string" where
  "join_with d [] = []"
| "join_with d [s] = s"
| "join_with d (s # t # ss) = s @ d # join_with d (t # ss)"

text \<open>\<open>String(n)\<close> for a non-negative integer: the decimal rendering.\<close>

definition digit_char :: "nat \<Rightarrow> char" where
  "digit_char n = ''0123456789'' ! (n mod 10)"

function show_nat :: "nat \<Rightarrow> string" where
  "show_nat n = (if n < 10 then [digit_char n] else show_nat (n div 10) @ [digit_char (n mod 10)])"
  by pat_completeness auto
termination
  by (relation "measure id") auto

declare show_nat.simps [simp del]

text \<open>\<open>s.padStart(l, "0")\<close>.\<close>

definition padStart :: "nat \<Rightarrow> string \<Rightarrow> string" where
  "padStart l s = replicate (l - length s) (CHR ''0'') @ s"

text \<open>
  \<open>s.replace(/pat/g, rep)\<close> for a literal, non-empty pattern and a replacement without
  dollar signs: every occurrence, scanning left to right, occurrences not overlapping.
\<close>

function replace_all :: "string \<Rightarrow> string \<Rightarrow> string \<Rightarrow> string" where
  "replace_all pat rep [] = []"
| "replace_all pat rep (c # cs) =
     (if pat \<noteq> [] \<and> prefix pat (c # cs)
      then rep @ replace_all pat rep (drop (length pat) (c # cs))
      else c # replace_all pat rep cs)"
  by pat_completeness auto
termination
  by (relation "measure (\<lambda>(pat, rep, s). length s)") auto

text \<open>
  \<open>FRONTMATTER_RE = /^---\n[\s\S]*?\n---\n?/\<close>. The pattern is anchored at the start of
  the input (no \<open>m\<close> flag). After the literal \<open>---\n\<close> the lazy \<open>[\s\S]*?\<close> takes the
  fewest characters such that \<open>\n---\<close> follows: \<open>find_close\<close> scans for the first
  occurrence of \<open>\n---\<close> and returns what follows it. The final \<open>\n?\<close> is greedy and
  nothing follows it, so one newline is consumed when present. The result of
  \<open>FRONTMATTER_RE_match\<close> is the text after the match, \<open>None\<close> when there is no match.
\<close>

fun find_close :: "string \<Rightarrow> string option" where
  "find_close [] = None"
| "find_close (c # cs) =
     (if prefix (NL # ''---'') (c # cs) then Some (drop 4 (c # cs)) else find_close cs)"

definition opt_newline :: "string \<Rightarrow> string" where
  "opt_newline r = (case r of [] \<Rightarrow> [] | c # cs \<Rightarrow> if c = NL then cs else c # cs)"

definition FRONTMATTER_RE_match :: "string \<Rightarrow> string option" where
  "FRONTMATTER_RE_match s =
     (if prefix (''---'' @ [NL]) s
      then map_option opt_newline (find_close (drop 4 s))
      else None)"

text \<open>\<open>FRONTMATTER_RE.test(s)\<close> and \<open>s.replace(FRONTMATTER_RE, "")\<close>: the match starts
  at index 0, so replacing it by the empty string leaves the text after the match.\<close>

definition FRONTMATTER_RE_test :: "string \<Rightarrow> bool" where
  "FRONTMATTER_RE_test s = (FRONTMATTER_RE_match s \<noteq> None)"

definition FRONTMATTER_RE_remove :: "string \<Rightarrow> string" where
  "FRONTMATTER_RE_remove s = (case FRONTMATTER_RE_match s of None \<Rightarrow> s | Some r \<Rightarrow> r)"

text \<open>
  \<open>s.replace(/\.[^.]+$/, "")\<close>. The engine tries each start index from the left; at an
  index the pattern matches when the character is a dot and the rest of the input, up to
  its end, is a non-empty run of characters other than a dot (\<open>[^.]\<close> also matches a
  slash and a newline, and \<open>$\<close> without the \<open>m\<close> flag is the end of the input). The
  first match is removed.
\<close>

definition ext_match_here :: "string \<Rightarrow> bool" where
  "ext_match_here s =
     (case s of [] \<Rightarrow> False | c # cs \<Rightarrow> c = CHR ''.'' \<and> cs \<noteq> [] \<and> CHR ''.'' \<notin> set cs)"

fun strip_ext_re :: "string \<Rightarrow> string" where
  "strip_ext_re [] = []"
| "strip_ext_re (c # cs) = (if ext_match_here (c # cs) then [] else c # strip_ext_re cs)"

section \<open>Timestamp formatter and content transformer\<close>

text \<open>The fields of a \<open>Date\<close> that \<open>formatTimestamp\<close> reads; \<open>getMonth\<close> counts from 0.\<close>

record date =
  getFullYear :: nat
  getMonth :: nat
  getDate :: nat
  getHours :: nat
  getMinutes :: nat
  getSeconds :: nat

definition pad :: "nat \<Rightarrow> string" where
  "pad n = padStart 2 (show_nat n)"

definition formatTimestamp :: "string \<Rightarrow> date \<Rightarrow> string" where
  "formatTimestamp fmt d =
     replace_all ''ss'' (pad (getSeconds d))
       (replace_all ''mm'' (pad (getMinutes d))
         (replace_all ''HH'' (pad (getHours d))
           (replace_all ''DD'' (pad (getDate d))
             (replace_all ''MM'' (pad (getMonth d + 1))
               (replace_all ''YYYY'' (show_nat (getFullYear d)) fmt)))))"

record TransformOptions =
  sanitizeFrontmatter :: bool
  addTimestampHeader :: bool
  timestampFormat :: string
  forceExtension :: "string option"

text \<open>JavaScript truthiness of an optional string: present and non-empty.\<close>

definition truthy :: "string option \<Rightarrow> bool" where
  "truthy x = (case x of None \<Rightarrow> False | Some s \<Rightarrow> s \<noteq> [])"

text \<open>
  \<open>transformContent\<close> calls \<open>formatTimestamp\<close> without a date, so the date defaults to
  \<open>new Date()\<close>, the clock at the time of the call. The clock reading is the explicit
  first argument \<open>now\<close> of the model. The result is the pair \<open>(content, transformed)\<close>.
\<close>

definition transformContent :: "date \<Rightarrow> string \<Rightarrow> 'a TransformOptions_scheme \<Rightarrow> string \<times> bool" where
  "transformContent now raw opts =
     (let (content, transformed) =
            (if sanitizeFrontmatter opts \<and> FRONTMATTER_RE_test raw
             then (FRONTMATTER_RE_remove raw, True)
             else (raw, False))
      in if addTimestampHeader opts
         then (let stamp = formatTimestamp
                     (if timestampFormat opts \<noteq> [] then timestampFormat opts
                      else ''YYYY-MM-DD HH:mm'') now
               in (''<!-- Pushed: '' @ stamp @ '' -->'' @ [NL] @ content, True))
         else (content, transformed))"

text \<open>
  The frontmatter block as the specification words it, for comparison with the pattern:
  the first line is exactly \<open>---\<close>, some later line is exactly \<open>---\<close>, and the block
  runs through the first such line and the newline that ends it. The result is the text
  after the block, \<open>None\<close> when the content does not begin with such a block.
\<close>

definition spec_frontmatter_rest :: "string \<Rightarrow> string option" where
  "spec_frontmatter_rest s =
     (case split_on NL s of
        [] \<Rightarrow> None
      | l # ls \<Rightarrow>
          if l = ''---''
          then (case dropWhile (\<lambda>x. x \<noteq> ''---'') ls of
                  [] \<Rightarrow> None
                | x # rest \<Rightarrow> Some (join_with NL rest))
          else None)"

text \<open>No line of a text starts with three dashes.\<close>

definition no_dash_line :: "string \<Rightarrow> bool" where
  "no_dash_line body = (\<forall>l \<in> set (split_on NL body). \<not> prefix ''---'' l)"

section \<open>Path functions of the platform (POSIX variant of Node's \<open>path\<close> module)\<close>

text \<open>
  \<open>path.basename\<close>, \<open>path.dirname\<close>, \<open>path.extname\<close> and \<open>path.join\<close> belong to the
  runtime, not to the plugin. They are modelled after the POSIX implementation, with
  \<open>/\<close> as the only separator.
\<close>

abbreviation SEP :: char where
  "SEP \<equiv> CHR ''/''"

text \<open>Trailing separators are ignored; the result is what follows the last remaining one.\<close>

definition last_segment :: "string \<Rightarrow> string" where
  "last_segment p = rev (takeWhile (\<lambda>c. c \<noteq> SEP) (dropWhile (\<lambda>c. c = SEP) (rev p)))"

definition basename :: "string \<Rightarrow> string" where
  "basename p = last_segment p"

text \<open>
  \<open>path.dirname\<close> scans the indices \<open>length p - 1\<close> down to \<open>1\<close>: it skips trailing
  separators, then the last segment, and cuts before the separator it stops at.
  \<open>dirname_scan\<close> is what is left of the scanned part, reversed; its length is the
  index of that separator.
\<close>

definition dirname_scan :: "string \<Rightarrow> string" where
  "dirname_scan p = dropWhile (\<lambda>c. c \<noteq> SEP) (dropWhile (\<lambda>c. c = SEP) (rev (tl p)))"

definition dirname :: "string \<Rightarrow> string" where
  "dirname p =
     (if p = [] then ''.''
      else let hasRoot = (hd p = SEP);
               r = dirname_scan p
           in if r = [] then (if hasRoot then ''/'' else ''.'')
              else if hasRoot \<and> length r = 1 then ''//''
              else take (length r) p)"

text \<open>
  \<open>path.extname\<close>: the last segment from its last dot on; empty when the segment has no
  dot, when its only dot is its first character, or when the segment is \<open>..\<close>.
\<close>

definition extname :: "string \<Rightarrow> string" where
  "extname p =
     (let seg = last_segment p;
          after = takeWhile (\<lambda>c. c \<noteq> CHR ''.'') (rev seg);
          upto = dropWhile (\<lambda>c. c \<noteq> CHR ''.'') (rev seg)
      in if upto = [] \<or> tl upto = [] \<or> seg = ''..'' then []
         else CHR ''.'' # rev after)"

abbreviation split_path :: "string \<Rightarrow> string list" where
  "split_path \<equiv> split_on SEP"

abbreviation join_segments :: "string list \<Rightarrow> string" where
  "join_segments \<equiv> join_with SEP"

text \<open>
  \<open>normalizeString\<close>: empty and \<open>.\<close> segments are dropped; \<open>..\<close> removes the segment
  before it, unless there is none or it is \<open>..\<close> itself, in which case \<open>..\<close> is kept
  only for a relative path (\<open>allowAboveRoot\<close>).
\<close>

definition normalize_step :: "bool \<Rightarrow> string list \<Rightarrow> string \<Rightarrow> string list" where
  "normalize_step allowAboveRoot st seg =
     (if seg = [] \<or> seg = ''.'' then st
      else if seg = ''..''
           then (if st \<noteq> [] \<and> last st \<noteq> ''..'' then butlast st
                 else if allowAboveRoot then st @ [''..''] else st)
      else st @ [seg])"

definition normalizeString :: "bool \<Rightarrow> string \<Rightarrow> string" where
  "normalizeString allowAboveRoot p =
     join_segments (foldl (normalize_step allowAboveRoot) [] (split_path p))"

definition path_normalize :: "string \<Rightarrow> string" where
  "path_normalize p =
     (if p = [] then ''.''
      else let isAbsolute = (hd p = SEP);
               trailingSeparator = (last p = SEP);
               res = normalizeString (\<not> isAbsolute) p
           in if res = [] then (if isAbsolute then ''/'' else if trailingSeparator then ''./'' else ''.'')
              else let res' = (if trailingSeparator then res @ ''/'' else res)
                   in if isAbsolute then SEP # res' else res')"

text \<open>\<open>path.join(a, b)\<close>: the non-empty arguments joined by a separator, normalised.\<close>

definition path_join :: "string \<Rightarrow> string \<Rightarrow> string" where
  "path_join a b =
     (if a = [] \<and> b = [] then ''.''
      else path_normalize (if a = [] then b else if b = [] then a else a @ SEP # b))"

text \<open>Segments of a path in normal form: not empty, without a separator, and neither
  \<open>.\<close> nor \<open>..\<close>.\<close>

definition clean_segments :: "string list \<Rightarrow> bool" where
  "clean_segments ss = (\<forall>s \<in> set ss. s \<noteq> [] \<and> SEP \<notin> set s \<and> s \<noteq> ''.'' \<and> s \<noteq> ''..'')"

section \<open>Path resolver\<close>

record PushContext =
  replicateFolders :: bool
  overwriteExisting :: bool
  targetBase :: string

text \<open>
  The destination computation of \<open>pushSingleFile\<close> (the lines from
  \<open>let relativePath = file.path\<close> to \<open>path.join(ctx.targetBase, relativePath)\<close>). A
  \<open>TFile\<close> is represented by its \<open>path\<close>.
\<close>

definition push_destPath :: "'c PushContext_scheme \<Rightarrow> 'a TransformOptions_scheme \<Rightarrow> string \<Rightarrow> string" where
  "push_destPath ctx tr file_path =
     (let relativePath = file_path;
          relativePath = (if \<not> replicateFolders ctx then basename relativePath else relativePath);
          relativePath = (if truthy (forceExtension tr)
                          then (let baseNoExt = strip_ext_re relativePath
                                in baseNoExt @ the (forceExtension tr))
                          else relativePath)
      in path_join (targetBase ctx) relativePath)"

text \<open>\<open>computeTargetFilePath\<close> of the plugin class (pull side).\<close>

definition computeTargetFilePath :: "string \<Rightarrow> 'c PushContext_scheme \<Rightarrow> 'a TransformOptions_scheme \<Rightarrow> string" where
  "computeTargetFilePath file_path ctx tr =
     (let relative = file_path;
          relative = (if \<not> replicateFolders ctx then basename relative else relative);
          relative = (if truthy (forceExtension tr)
                      then (let baseNoExt = strip_ext_re relative
                            in baseNoExt @ the (forceExtension tr))
                      else relative)
      in path_join (targetBase ctx) relative)"

section \<open>File system, document store and failures\<close>

text \<open>
  The external file system is a finite map from absolute paths to nodes. \<open>existsSync\<close>
  is true of files and directories alike; \<open>read_file\<close> is what a reader of a path
  observes: the content of a regular file, or nothing.
\<close>

datatype node = File string | Dir

type_synonym filesystem = "(string, node) fmap"

definition existsSync :: "filesystem \<Rightarrow> string \<Rightarrow> bool" where
  "existsSync fs p = (fmlookup fs p \<noteq> None)"

definition read_file :: "filesystem \<Rightarrow> string \<Rightarrow> string option" where
  "read_file fs p = (case fmlookup fs p of Some (File c) \<Rightarrow> Some c | _ \<Rightarrow> None)"

text \<open>
  Thrown values. \<open>PushError\<close> carries its message and optional code; \<open>Error\<close> is any
  other \<open>Error\<close> object (message, optional code property); \<open>Thrown\<close> is a value that is
  not an \<open>Error\<close>.
\<close>

datatype exn = PushError string "string option" | Error string "string option" | Thrown

text \<open>
  How \<open>fs.promises.writeFile\<close> ends: it completes, it is refused before anything is
  written, or it fails after the file was created and a number of characters were
  written. A failure carries the optional \<open>code\<close> property of the thrown error.
\<close>

datatype wfault = WriteOk | WriteRefused "string option" | WritePartial nat "string option"

text \<open>
  The behaviour of the environment that the code does not control: which operations
  fail, and how. Every function may depend on the current file system.
  \<open>mkdir_fault\<close> gives the number of directories created before the failure, the
  message and the code.
\<close>

record faults =
  mkdir_fault :: "filesystem \<Rightarrow> string \<Rightarrow> (nat \<times> string \<times> string option) option"
  write_fault :: "filesystem \<Rightarrow> string \<Rightarrow> wfault"
  rename_fault :: "filesystem \<Rightarrow> string \<Rightarrow> string \<Rightarrow> string option option"
  unlink_fault :: "filesystem \<Rightarrow> string \<Rightarrow> bool"

text \<open>
  The document store: \<open>vault.read\<close> of a document returns its content or throws.
  \<open>vault.modify\<close> replaces the content of a document that can be read.
\<close>

type_synonym vault = "string \<Rightarrow> exn + string"

definition vault_modify :: "vault \<Rightarrow> string \<Rightarrow> string \<Rightarrow> exn + vault" where
  "vault_modify v p c = (case v p of Inl e \<Rightarrow> Inl e | Inr old \<Rightarrow> Inr (v(p := Inr c)))"

text \<open>
  \<open>mkdir(d, {recursive: true})\<close> creates \<open>d\<close> and every missing directory above it: the
  prefixes of \<open>d\<close> that end before a separator, then \<open>d\<close> itself.
\<close>

definition ancestors :: "string \<Rightarrow> string list" where
  "ancestors d = map (\<lambda>k. take k d) (filter (\<lambda>k. d ! k = SEP) [1..<length d]) @ [d]"

definition mkdir_one :: "filesystem \<Rightarrow> string \<Rightarrow> filesystem" where
  "mkdir_one fs p = (if existsSync fs p then fs else fmupd p Dir fs)"

definition mkdir_recursive :: "filesystem \<Rightarrow> string list \<Rightarrow> filesystem" where
  "mkdir_recursive fs ds = foldl mkdir_one fs ds"

text \<open>The states the file system passes through while the directories are created.\<close>

definition mkdir_states :: "filesystem \<Rightarrow> string list \<Rightarrow> filesystem list" where
  "mkdir_states fs ds = map (\<lambda>k. mkdir_recursive fs (take k ds)) [0..<Suc (length ds)]"

text \<open>\<open>rename(src, dst)\<close> moves the node at \<open>src\<close> onto \<open>dst\<close> in one step.\<close>

definition fs_rename :: "filesystem \<Rightarrow> string \<Rightarrow> string \<Rightarrow> filesystem" where
  "fs_rename fs src dst =
     (case fmlookup fs src of None \<Rightarrow> fs | Some n \<Rightarrow> fmupd dst n (fmdrop src fs))"

text \<open>
  The states a file passes through while \<open>writeFile\<close> writes the first \<open>k\<close> characters
  of \<open>c\<close> to \<open>p\<close>: created or truncated, then growing.
\<close>

definition writeFile_states :: "filesystem \<Rightarrow> string \<Rightarrow> string \<Rightarrow> nat \<Rightarrow> filesystem list" where
  "writeFile_states fs p c k = map (\<lambda>j. fmupd p (File (take j c)) fs) [0..<Suc k]"

section \<open>Collision resolver and durable writer\<close>

text \<open>
  The loop \<open>while (fs.existsSync(`${b}-${i}${ext}`)) i++\<close>. It has no bound, so the
  model is a partial function: \<open>None\<close> stands for a loop that does not end.
\<close>

definition candidate :: "string \<Rightarrow> string \<Rightarrow> nat \<Rightarrow> string" where
  "candidate b ext i = b @ ''-'' @ show_nat i @ ext"

partial_function (option) find_free :: "filesystem \<Rightarrow> string \<Rightarrow> string \<Rightarrow> nat \<Rightarrow> nat option" where
  "find_free fs b ext i =
     (if existsSync fs (candidate b ext i) then find_free fs b ext (Suc i) else Some i)"

text \<open>The lines from \<open>let finalPath = destPath\<close> to the end of the collision block.\<close>

definition resolve_collision :: "filesystem \<Rightarrow> bool \<Rightarrow> string \<Rightarrow> string option" where
  "resolve_collision fs overwrite destPath =
     (if \<not> overwrite \<and> existsSync fs destPath
      then (let ext = extname destPath;
                b = take (length destPath - length ext) destPath
            in map_option (candidate b ext) (find_free fs b ext 1))
      else Some destPath)"

text \<open>The \<open>catch\<close> block: the temporary file is deleted when it exists; a failure of
  the deletion is ignored. Then the error is classified by its code.\<close>

definition cleanup :: "'f faults_scheme \<Rightarrow> filesystem \<Rightarrow> string \<Rightarrow> filesystem" where
  "cleanup flt fs tmp =
     (if existsSync fs tmp \<and> \<not> unlink_fault flt fs tmp then fmdrop tmp fs else fs)"

definition write_error :: "string option \<Rightarrow> string \<Rightarrow> exn" where
  "write_error code finalPath =
     (let msg = (if code = Some ''EACCES'' \<or> code = Some ''EPERM''
                 then ''Permission denied writing destination''
                 else if code = Some ''ENOENT'' then ''Destination path not found''
                 else ''Failed to write file'')
      in PushError (msg @ '': '' @ finalPath) code)"

text \<open>
  The \<open>try\<close>/\<open>catch\<close> of \<open>pushSingleFile\<close>. The result is the list of all file system
  states from the one before the block to the one after it, and the error thrown, if
  any.
\<close>

definition durable_write :: "'f faults_scheme \<Rightarrow> filesystem \<Rightarrow> string \<Rightarrow> string \<Rightarrow> filesystem list \<times> exn option" where
  "durable_write flt fs finalPath content =
     (let tmp = finalPath @ ''.tmp''
      in case write_fault flt fs tmp of
           WriteRefused code \<Rightarrow> ([fs, cleanup flt fs tmp], Some (write_error code finalPath))
         | WritePartial k code \<Rightarrow>
             (let ws = writeFile_states fs tmp content (min k (length content))
              in (fs # ws @ [cleanup flt (last ws) tmp], Some (write_error code finalPath)))
         | WriteOk \<Rightarrow>
             (let ws = writeFile_states fs tmp content (length content)
              in case rename_fault flt (last ws) tmp finalPath of
                   Some code \<Rightarrow> (fs # ws @ [cleanup flt (last ws) tmp], Some (write_error code finalPath))
                 | None \<Rightarrow> (fs # ws @ [fs_rename (last ws) tmp finalPath], None)))"

section \<open>Single-file push and batch push\<close>

record PushResult =
  source :: string
  finalPath :: string
  bytes :: nat
  transformed :: bool

record PushFailure =
  file' :: string
  error :: string
  code :: "string option"

record PushBatchResult =
  successes :: "PushResult list"
  failures :: "PushFailure list"

text \<open>\<open>Buffer.byteLength(content, "utf8")\<close> for characters below 256.\<close>

definition byteLength :: "string \<Rightarrow> nat" where
  "byteLength s = sum_list (map (\<lambda>c. if of_char c < (128::nat) then 1 else 2) s)"

text \<open>
  \<open>pushSingleFile\<close>, with the file system states it passes through, from the state it
  starts in to the state it ends in. The outcome is
  \<open>Inl\<close> of the thrown value or \<open>Inr\<close> of the result; \<open>None\<close> means that the collision
  loop does not end.
\<close>

definition pushSingleFile_steps ::
  "'f faults_scheme \<Rightarrow> date \<Rightarrow> vault \<Rightarrow> filesystem \<Rightarrow> string \<Rightarrow> 'c PushContext_scheme \<Rightarrow>
   'a TransformOptions_scheme \<Rightarrow> ((exn + PushResult) \<times> filesystem list) option" where
  "pushSingleFile_steps flt now v fs file_path ctx tr =
     (case v file_path of
        Inl e \<Rightarrow> Some (Inl e, [fs])
      | Inr raw \<Rightarrow>
          (let (content, transformed) = transformContent now raw tr;
               destPath = push_destPath ctx tr file_path;
               destDir = dirname destPath
           in case mkdir_fault flt fs destDir of
                Some (k, msg, c) \<Rightarrow>
                  Some (Inl (Error msg c), mkdir_states fs (take k (ancestors destDir)))
              | None \<Rightarrow>
                  (let fs1 = mkdir_recursive fs (ancestors destDir)
                   in case resolve_collision fs1 (overwriteExisting ctx) destPath of
                        None \<Rightarrow> None
                      | Some final \<Rightarrow>
                          (case durable_write flt fs1 final content of
                             (states, Some e) \<Rightarrow>
                               Some (Inl e, mkdir_states fs (ancestors destDir) @ states)
                           | (states, None) \<Rightarrow>
                               Some (Inr \<lparr>source = file_path, finalPath = final,
                                          bytes = byteLength content,
                                          transformed = transformed\<rparr>,
                                     mkdir_states fs (ancestors destDir) @ states)))))"

text \<open>
  The final path of a push, as \<open>pushSingleFile\<close> computes it between the creation of the
  directories and the write: a name for the value of the variable \<open>finalPath\<close>.
\<close>

definition push_finalPath ::
  "filesystem \<Rightarrow> 'c PushContext_scheme \<Rightarrow> 'a TransformOptions_scheme \<Rightarrow> string \<Rightarrow> string option" where
  "push_finalPath fs ctx tr file_path =
     (let destPath = push_destPath ctx tr file_path
      in resolve_collision (mkdir_recursive fs (ancestors (dirname destPath)))
           (overwriteExisting ctx) destPath)"

definition pushSingleFile ::
  "'f faults_scheme \<Rightarrow> date \<Rightarrow> vault \<Rightarrow> filesystem \<Rightarrow> string \<Rightarrow> 'c PushContext_scheme \<Rightarrow>
   'a TransformOptions_scheme \<Rightarrow> ((exn + PushResult) \<times> filesystem) option" where
  "pushSingleFile flt now v fs file_path ctx tr =
     map_option (\<lambda>(r, states). (r, last states)) (pushSingleFile_steps flt now v fs file_path ctx tr)"

text \<open>The \<open>catch\<close> block of \<open>pushMultiple\<close>.\<close>

definition to_failure :: "string \<Rightarrow> exn \<Rightarrow> PushFailure" where
  "to_failure file_path err =
     (case err of
        PushError m c \<Rightarrow> \<lparr>file' = file_path, error = m, code = c\<rparr>
      | Error m c \<Rightarrow> \<lparr>file' = file_path, error = m, code = None\<rparr>
      | Thrown \<Rightarrow> \<lparr>file' = file_path, error = ''Unknown error'', code = None\<rparr>)"

text \<open>
  The loop of \<open>pushMultiple\<close> with its two accumulators. Every push reads the clock
  anew: \<open>clock t\<close> is the reading of the \<open>t\<close>-th push.
\<close>

fun pushMultiple_loop ::
  "'f faults_scheme \<Rightarrow> (nat \<Rightarrow> date) \<Rightarrow> vault \<Rightarrow> 'c PushContext_scheme \<Rightarrow> 'a TransformOptions_scheme \<Rightarrow>
   string list \<Rightarrow> nat \<Rightarrow> filesystem \<Rightarrow> PushResult list \<Rightarrow> PushFailure list \<Rightarrow>
   (PushBatchResult \<times> filesystem) option" where
  "pushMultiple_loop flt clock v ctx tr [] t fs succs fails =
     Some (\<lparr>successes = succs, failures = fails\<rparr>, fs)"
| "pushMultiple_loop flt clock v ctx tr (f # files) t fs succs fails =
     (case pushSingleFile flt (clock t) v fs f ctx tr of
        None \<Rightarrow> None
      | Some (Inr r, fs') \<Rightarrow> pushMultiple_loop flt clock v ctx tr files (Suc t) fs' (succs @ [r]) fails
      | Some (Inl err, fs') \<Rightarrow>
          pushMultiple_loop flt clock v ctx tr files (Suc t) fs' succs (fails @ [to_failure f err]))"

text \<open>\<open>pushMultiple\<close>: \<open>Inl\<close> would be a value thrown by the batch call itself.\<close>

definition pushMultiple ::
  "'f faults_scheme \<Rightarrow> (nat \<Rightarrow> date) \<Rightarrow> vault \<Rightarrow> filesystem \<Rightarrow> string list \<Rightarrow> 'c PushContext_scheme \<Rightarrow>
   'a TransformOptions_scheme \<Rightarrow> ((exn + PushBatchResult) \<times> filesystem) option" where
  "pushMultiple flt clock v fs files ctx tr =
     map_option (\<lambda>(r, fs'). (Inr r, fs')) (pushMultiple_loop flt clock v ctx tr files 0 fs [] [])"

text \<open>
  The batch as the specification words it, for comparison with the loop: the single-file
  push runs for each document in turn, each one in the file system the previous one
  left, whether that one returned or threw, and with the clock reading of its turn. The
  result is the list of the outcomes, one for each document and in input order (\<open>Inr\<close>
  of the result of a push that returned, \<open>Inl\<close> of the value thrown by a push that
  threw), and the file system at the end.
\<close>

fun push_each ::
  "'f faults_scheme \<Rightarrow> (nat \<Rightarrow> date) \<Rightarrow> vault \<Rightarrow> 'c PushContext_scheme \<Rightarrow> 'a TransformOptions_scheme \<Rightarrow>
   string list \<Rightarrow> nat \<Rightarrow> filesystem \<Rightarrow> ((exn + PushResult) list \<times> filesystem) option" where
  "push_each flt clock v ctx tr [] t fs = Some ([], fs)"
| "push_each flt clock v ctx tr (f # files) t fs =
     (case pushSingleFile flt (clock t) v fs f ctx tr of
        None \<Rightarrow> None
      | Some (out, fs1) \<Rightarrow>
          (case push_each flt clock v ctx tr files (Suc t) fs1 of
             None \<Rightarrow> None
           | Some (outs, fs') \<Rightarrow> Some (out # outs, fs')))"

text \<open>An environment in which directory creation, writing and renaming never fail.\<close>

definition fault_free :: "'f faults_scheme \<Rightarrow> bool" where
  "fault_free flt =
     ((\<forall>s d. mkdir_fault flt s d = None) \<and> (\<forall>s q. write_fault flt s q = WriteOk) \<and>
      (\<forall>s a b. rename_fault flt s a b = None))"

text \<open>The final paths of the successes of a batch, in order.\<close>

definition batch_finalPaths :: "((exn + PushBatchResult) \<times> filesystem) option \<Rightarrow> string list option" where
  "batch_finalPaths out =
     (case out of
        Some (Inr res, fs') \<Rightarrow> Some (map finalPath (successes res))
      | _ \<Rightarrow> None)"

section \<open>Single-file pull\<close>

text \<open>\<open>fs.promises.readFile(p, "utf8")\<close>: the content of a regular file, an error
  otherwise.\<close>

definition fs_readFile :: "filesystem \<Rightarrow> string \<Rightarrow> exn + string" where
  "fs_readFile fs p =
     (case fmlookup fs p of
        None \<Rightarrow>
          Inl (Error (''ENOENT: no such file or directory, open '' @ [CHR 0x27] @ p @ [CHR 0x27])
                 (Some ''ENOENT''))
      | Some Dir \<Rightarrow>
          Inl (Error ''EISDIR: illegal operation on a directory, read'' (Some ''EISDIR''))
      | Some (File c) \<Rightarrow> Inr c)"

text \<open>
  \<open>pullFile\<close>. The first argument is the result of \<open>buildPushContext\<close> (\<open>None\<close> when no
  target directory is configured), the second the result of \<open>buildTransformOptions\<close>.
  The result is the text of the notice shown and the document store afterwards. An error
  thrown inside the \<open>try\<close> block goes to \<open>handlePullError\<close>, which shows its message.
\<close>

definition handlePullError :: "exn \<Rightarrow> string" where
  "handlePullError err =
     (case err of PushError m c \<Rightarrow> m | Error m c \<Rightarrow> m | Thrown \<Rightarrow> ''Pull failed'')"

definition applyPulledContent :: "vault \<Rightarrow> string \<Rightarrow> string \<Rightarrow> exn + vault" where
  "applyPulledContent v file_path content = vault_modify v file_path content"

definition pullFile ::
  "'c PushContext_scheme option \<Rightarrow> 'a TransformOptions_scheme \<Rightarrow> filesystem \<Rightarrow> vault \<Rightarrow> string \<Rightarrow>
   string \<times> vault" where
  "pullFile ctx_opt tr fs v file_path =
     (case ctx_opt of
        None \<Rightarrow> (''Pull: targetDir not configured'', v)
      | Some ctx \<Rightarrow>
          (let targetPath = computeTargetFilePath file_path ctx tr
           in if \<not> existsSync fs targetPath
              then (let originalPath = path_join (targetBase ctx)
                                         (if replicateFolders ctx then file_path else basename file_path)
                    in if truthy (forceExtension tr) \<and> existsSync fs originalPath
                       then (case fs_readFile fs originalPath of
                               Inl e \<Rightarrow> (handlePullError e, v)
                             | Inr content \<Rightarrow>
                                 (case applyPulledContent v file_path content of
                                    Inl e \<Rightarrow> (handlePullError e, v)
                                  | Inr v' \<Rightarrow> (''Pulled (fallback extension)'', v')))
                       else (''Target file not found for pull'', v))
              else (case fs_readFile fs targetPath of
                      Inl e \<Rightarrow> (handlePullError e, v)
                    | Inr content \<Rightarrow>
                        (case applyPulledContent v file_path content of
                           Inl e \<Rightarrow> (handlePullError e, v)
                         | Inr v' \<Rightarrow> (''Note pulled'', v')))))"

section \<open>A sample environment\<close>

text \<open>An environment in which no operation fails, a clock reading, and options that
  transform nothing; the examples below are stated on them.\<close>

definition no_faults :: faults where
  "no_faults = \<lparr>mkdir_fault = (\<lambda>fs d. None), write_fault = (\<lambda>fs q. WriteOk),
                 rename_fault = (\<lambda>fs a b. None), unlink_fault = (\<lambda>fs q. False)\<rparr>"

definition new_year :: date where
  "new_year = \<lparr>getFullYear = 2024, getMonth = 0, getDate = 1, getHours = 0, getMinutes = 0,
                getSeconds = 0\<rparr>"

text \<open>A clock that shows the same reading at every push of a batch.\<close>

definition still_clock :: "nat \<Rightarrow> date" where
  "still_clock t = new_year"

definition plain :: TransformOptions where
  "plain = \<lparr>sanitizeFrontmatter = False, addTimestampHeader = False, timestampFormat = [],
             forceExtension = None\<rparr>"

text \<open>A store with the single document \<open>n.md\<close>.\<close>

definition one_note :: "string \<Rightarrow> vault" where
  "one_note c = (\<lambda>q. Inl (Error ''File not found'' None))(''n.md'' := Inr c)"

section \<open>Pull and push compute the same path\<close>

text \<open>
  Claim C8. The path computed by \<open>computeTargetFilePath\<close> on the pull side and the
  destination computed inside \<open>pushSingleFile\<close> are the same function of the logical
  path, the folder-replication flag, the forced extension and the target base.
\<close>

theorem computeTargetFilePath_eq_push_destPath:
  "computeTargetFilePath file_path ctx tr = push_destPath ctx tr file_path"
  by (simp add: computeTargetFilePath_def push_destPath_def)

section \<open>The content transformer and the clock\<close>

lemma transformContent_no_header:
  "\<not> addTimestampHeader opts \<Longrightarrow>
   transformContent now raw opts =
     (if sanitizeFrontmatter opts \<and> FRONTMATTER_RE_test raw
      then (FRONTMATTER_RE_remove raw, True) else (raw, False))"
  by (simp add: transformContent_def)

lemma show_nat_small: "n < 10 \<Longrightarrow> show_nat n = [digit_char n]"
  by (subst show_nat.simps) simp

lemma show_nat_large: "\<not> n < 10 \<Longrightarrow> show_nat n = show_nat (n div 10) @ [digit_char (n mod 10)]"
  by (subst show_nat.simps) simp

text \<open>
  Claim C3, as stated, fails: with the timestamp header switched on, two evaluations
  on the same content and options differ when the clock has moved between them.
\<close>

theorem transformContent_clock_counterexample:
  "transformContent
     \<lparr>getFullYear = 2024, getMonth = 0, getDate = 1, getHours = 0, getMinutes = 0, getSeconds = 0\<rparr>
     ''x''
     \<lparr>sanitizeFrontmatter = False, addTimestampHeader = True, timestampFormat = ''YYYY'',
      forceExtension = None\<rparr>
   \<noteq>
   transformContent
     \<lparr>getFullYear = 2025, getMonth = 0, getDate = 1, getHours = 0, getMinutes = 0, getSeconds = 0\<rparr>
     ''x''
     \<lparr>sanitizeFrontmatter = False, addTimestampHeader = True, timestampFormat = ''YYYY'',
      forceExtension = None\<rparr>"
  by (simp add: transformContent_def formatTimestamp_def pad_def padStart_def
      show_nat_small show_nat_large digit_char_def)

text \<open>
  Claim C3, amended. The result of \<open>transformContent\<close> is determined by the content,
  the options and the clock reading. When the timestamp header is off the clock does not
  matter, so two evaluations on the same content and options agree; when both flags are
  off the content is returned as it is, with \<open>transformed = False\<close>. When the header is
  on, the content is the header line, which carries the clock reading rendered by
  \<open>formatTimestamp\<close> in the configured format (or the default one when that is empty),
  followed by the content that the same options without the header give, and
  \<open>transformed\<close> is \<open>True\<close>. The \<open>transformed\<close> flag never depends on the clock, and two
  evaluations on the same content and options agree whenever the two clock readings
  render to the same timestamp.
\<close>

theorem transformContent_deterministic:
  "(\<not> addTimestampHeader opts \<longrightarrow> transformContent now_a raw opts = transformContent now_b raw opts)
   \<and> (\<not> sanitizeFrontmatter opts \<and> \<not> addTimestampHeader opts \<longrightarrow>
        transformContent now_a raw opts = (raw, False))
   \<and> (addTimestampHeader opts \<longrightarrow>
        transformContent now_a raw opts =
          (''<!-- Pushed: ''
             @ formatTimestamp (if timestampFormat opts \<noteq> [] then timestampFormat opts
                                else ''YYYY-MM-DD HH:mm'') now_a
             @ '' -->'' @ [NL]
             @ fst (transformContent now_b raw (opts\<lparr>addTimestampHeader := False\<rparr>)),
           True))
   \<and> snd (transformContent now_a raw opts) = snd (transformContent now_b raw opts)
   \<and> (formatTimestamp (if timestampFormat opts \<noteq> [] then timestampFormat opts
                         else ''YYYY-MM-DD HH:mm'') now_a
        = formatTimestamp (if timestampFormat opts \<noteq> [] then timestampFormat opts
                           else ''YYYY-MM-DD HH:mm'') now_b \<longrightarrow>
        transformContent now_a raw opts = transformContent now_b raw opts)"
  by (simp add: transformContent_def Let_def split: prod.splits)

theorem transformContent_deterministic_witness:
  "transformContent new_year ''x''
     \<lparr>sanitizeFrontmatter = False, addTimestampHeader = False, timestampFormat = ''YYYY'',
      forceExtension = None\<rparr>
   = (''x'', False)
   \<and> transformContent new_year ''x''
     \<lparr>sanitizeFrontmatter = False, addTimestampHeader = True, timestampFormat = ''YYYY'',
      forceExtension = None\<rparr>
   = (''<!-- Pushed: 2024 -->'' @ [NL] @ ''x'', True)"
proof -
  let ?off = "\<lparr>sanitizeFrontmatter = False, addTimestampHeader = False, timestampFormat = ''YYYY'',
               forceExtension = None\<rparr>"
  let ?on = "\<lparr>sanitizeFrontmatter = False, addTimestampHeader = True, timestampFormat = ''YYYY'',
              forceExtension = None\<rparr>"
  have stamp: "formatTimestamp ''YYYY'' new_year = ''2024''"
    by (simp add: formatTimestamp_def new_year_def pad_def padStart_def show_nat_small
        show_nat_large digit_char_def)
  have off: "transformContent new_year ''x'' ?off = (''x'', False)"
    using transformContent_deterministic[where opts = ?off and now_a = new_year
        and now_b = new_year and raw = "''x''"]
    by simp
  have "transformContent new_year ''x'' ?on =
          (''<!-- Pushed: '' @ formatTimestamp ''YYYY'' new_year @ '' -->'' @ [NL]
             @ fst (transformContent new_year ''x'' ?off), True)"
    using transformContent_deterministic[where opts = ?on and now_a = new_year
        and now_b = new_year and raw = "''x''"]
    by simp
  then have on: "transformContent new_year ''x'' ?on = (''<!-- Pushed: 2024 -->'' @ [NL] @ ''x'', True)"
    unfolding stamp off by simp
  from off on show ?thesis by blast
qed

section \<open>Frontmatter stripping\<close>

lemma split_on_nonempty: "split_on d s \<noteq> []"
  by (induction s) (auto split: list.splits)

lemma hd_split_on: "hd (split_on d s) = takeWhile (\<lambda>c. c \<noteq> d) s"
  by (induction s) (auto split: list.splits simp: split_on_nonempty)

lemma tl_split_on_Cons:
  "tl (split_on d (c # cs)) = (if c = d then split_on d cs else tl (split_on d cs))"
  by (auto split: list.splits simp: split_on_nonempty)

lemma prefix_dashes_first_line:
  assumes "prefix ''---'' (cs @ NL # t)"
  shows "prefix ''---'' (takeWhile (\<lambda>c. c \<noteq> NL) cs)"
proof -
  from assms obtain r where r: "cs @ NL # t = ''---'' @ r" by (auto simp: prefix_def)
  show ?thesis
  proof (cases cs)
    case Nil with r show ?thesis by simp
  next
    case (Cons a as)
    note c1 = this
    show ?thesis
    proof (cases as)
      case Nil with c1 r show ?thesis by simp
    next
      case (Cons b bs)
      note c2 = this
      show ?thesis
      proof (cases bs)
        case Nil with c1 c2 r show ?thesis by simp
      next
        case (Cons c ds)
        with c1 c2 r show ?thesis by simp
      qed
    qed
  qed
qed

lemma find_close_first:
  "\<forall>l \<in> set (tl (split_on NL body)). \<not> prefix ''---'' l \<Longrightarrow>
   find_close (body @ NL # ''---'' @ t) = Some t"
proof (induction body)
  case Nil
  then show ?case by simp
next
  case (Cons c cs)
  have "set (tl (split_on NL cs)) \<subseteq> set (tl (split_on NL (c # cs)))"
    unfolding tl_split_on_Cons using list.set_sel(2)[OF split_on_nonempty] by auto
  then have tl_ok: "\<forall>l \<in> set (tl (split_on NL cs)). \<not> prefix ''---'' l"
    using Cons.prems by blast
  have np: "\<not> prefix (NL # ''---'') (c # cs @ NL # ''---'' @ t)"
  proof
    assume p: "prefix (NL # ''---'') (c # cs @ NL # ''---'' @ t)"
    then have c: "c = NL" and q: "prefix ''---'' (cs @ NL # ''---'' @ t)" by auto
    from prefix_dashes_first_line[OF q] have "prefix ''---'' (hd (split_on NL cs))"
      by (simp add: hd_split_on)
    moreover have "hd (split_on NL cs) \<in> set (tl (split_on NL (c # cs)))"
      using c by (simp add: split_on_nonempty)
    ultimately show False using Cons.prems by blast
  qed
  have "find_close ((c # cs) @ NL # ''---'' @ t) = find_close (cs @ NL # ''---'' @ t)"
    using np by (simp only: append_Cons find_close.simps if_False)
  then show ?case using Cons.IH[OF tl_ok] by simp
qed

lemma find_close_shorter: "find_close s = Some r \<Longrightarrow> length r < length s"
  by (induction s) (auto split: if_splits)

lemma opt_newline_le: "length (opt_newline r) \<le> length r"
  by (auto simp: opt_newline_def split: list.splits)

lemma FRONTMATTER_RE_match_shorter: "FRONTMATTER_RE_match s = Some r \<Longrightarrow> length r < length s"
proof -
  assume "FRONTMATTER_RE_match s = Some r"
  then obtain q where q: "find_close (drop 4 s) = Some q" and r: "r = opt_newline q"
    by (auto simp: FRONTMATTER_RE_match_def split: if_splits)
  from find_close_shorter[OF q] have "length q < length s" by simp
  with r opt_newline_le[of q] show ?thesis by simp
qed

lemma FRONTMATTER_RE_match_block:
  assumes "no_dash_line body"
  shows "FRONTMATTER_RE_match (''---'' @ NL # body @ NL # ''---'' @ t) = Some (opt_newline t)"
proof -
  have "\<forall>l \<in> set (tl (split_on NL body)). \<not> prefix ''---'' l"
    using assms by (auto simp: no_dash_line_def dest: list.set_sel(2)[OF split_on_nonempty])
  from find_close_first[OF this] show ?thesis
    by (simp add: FRONTMATTER_RE_match_def)
qed

text \<open>
  Claim C2: with \<open>sanitizeFrontmatter\<close> on, content that begins with a line \<open>---\<close>, any
  content (including none) and a line \<open>---\<close> loses that leading block, \<open>transformed\<close>
  is set exactly then, and content that does not begin with such a block is left
  unchanged. The pattern misses this at two inputs. A block with nothing between the two
  delimiter lines (\<open>---\<close>, newline, \<open>---\<close>, newline, \<open>Body\<close>) is a leading block with
  rest \<open>Body\<close>, but the pattern needs a newline of its own before the closing dashes:
  the content stays as it is and \<open>transformed\<close> is \<open>False\<close>. And the content \<open>---\<close>,
  newline, \<open>a\<close>, newline, \<open>---x\<close> has no closing line that is exactly \<open>---\<close>, so it
  does not begin with a block, yet the pattern, which does not anchor the closing dashes
  at the end of their line, matches through the three dashes: the content becomes \<open>x\<close>
  and \<open>transformed\<close> is \<open>True\<close>.
\<close>

theorem frontmatter_pattern_slips:
  "spec_frontmatter_rest (''---'' @ NL # ''---'' @ NL # ''Body'') = Some ''Body''
   \<and> transformContent
       \<lparr>getFullYear = 2024, getMonth = 0, getDate = 1, getHours = 0, getMinutes = 0, getSeconds = 0\<rparr>
       (''---'' @ NL # ''---'' @ NL # ''Body'')
       \<lparr>sanitizeFrontmatter = True, addTimestampHeader = False, timestampFormat = [],
        forceExtension = None\<rparr>
     = (''---'' @ NL # ''---'' @ NL # ''Body'', False)
   \<and> spec_frontmatter_rest (''---'' @ NL # ''a'' @ NL # ''---x'') = None
   \<and> transformContent
       \<lparr>getFullYear = 2024, getMonth = 0, getDate = 1, getHours = 0, getMinutes = 0, getSeconds = 0\<rparr>
       (''---'' @ NL # ''a'' @ NL # ''---x'')
       \<lparr>sanitizeFrontmatter = True, addTimestampHeader = False, timestampFormat = [],
        forceExtension = None\<rparr>
     = (''x'', True)"
  by (simp add: spec_frontmatter_rest_def transformContent_def FRONTMATTER_RE_test_def
      FRONTMATTER_RE_remove_def FRONTMATTER_RE_match_def opt_newline_def)

text \<open>
  On the blocks the pattern was written for, the step does what is asked of it. With
  \<open>sanitizeFrontmatter\<close> on and the timestamp header off: if the content is a line
  \<open>---\<close>, then at least one line of text (possibly empty) none of whose lines starts with
  \<open>---\<close>, then a line \<open>---\<close> that ends the input or is followed by a newline, the whole
  block including that newline is removed, however many further delimiter lines follow;
  \<open>transformed\<close> is set exactly when the content changed; and content that does not
  begin with the line \<open>---\<close> is left unchanged.
\<close>

lemma frontmatter_strip_wellformed:
  assumes "sanitizeFrontmatter opts" and "\<not> addTimestampHeader opts"
  shows "(\<forall>body rest. raw = ''---'' @ NL # body @ NL # ''---'' @ NL # rest \<and> no_dash_line body \<longrightarrow>
            transformContent now raw opts = (rest, True))
       \<and> (\<forall>body. raw = ''---'' @ NL # body @ NL # ''---'' \<and> no_dash_line body \<longrightarrow>
            transformContent now raw opts = ([], True))
       \<and> (\<not> prefix (''---'' @ [NL]) raw \<longrightarrow> transformContent now raw opts = (raw, False))
       \<and> (snd (transformContent now raw opts) \<longleftrightarrow> fst (transformContent now raw opts) \<noteq> raw)"
proof (intro conjI allI impI)
  fix body rest
  assume "raw = ''---'' @ NL # body @ NL # ''---'' @ NL # rest \<and> no_dash_line body"
  then show "transformContent now raw opts = (rest, True)"
    using assms FRONTMATTER_RE_match_block[of body "NL # rest"]
    by (simp add: transformContent_no_header FRONTMATTER_RE_test_def FRONTMATTER_RE_remove_def opt_newline_def)
next
  fix body
  assume "raw = ''---'' @ NL # body @ NL # ''---'' \<and> no_dash_line body"
  then show "transformContent now raw opts = ([], True)"
    using assms FRONTMATTER_RE_match_block[of body "[]"]
    by (simp add: transformContent_no_header FRONTMATTER_RE_test_def FRONTMATTER_RE_remove_def opt_newline_def)
next
  assume "\<not> prefix (''---'' @ [NL]) raw"
  then show "transformContent now raw opts = (raw, False)"
    using assms by (simp add: transformContent_no_header FRONTMATTER_RE_test_def FRONTMATTER_RE_match_def)
next
  show "snd (transformContent now raw opts) \<longleftrightarrow> fst (transformContent now raw opts) \<noteq> raw"
    using assms FRONTMATTER_RE_match_shorter[of raw]
    by (auto simp: transformContent_no_header FRONTMATTER_RE_test_def FRONTMATTER_RE_remove_def)
qed

lemma frontmatter_strip_example:
  "transformContent
     \<lparr>getFullYear = 2024, getMonth = 0, getDate = 1, getHours = 0, getMinutes = 0, getSeconds = 0\<rparr>
     (''---'' @ NL # ''key: val'' @ NL # ''---'' @ NL # ''Body'')
     \<lparr>sanitizeFrontmatter = True, addTimestampHeader = False, timestampFormat = [],
      forceExtension = None\<rparr>
   = (''Body'', True)
   \<and> transformContent
     \<lparr>getFullYear = 2024, getMonth = 0, getDate = 1, getHours = 0, getMinutes = 0, getSeconds = 0\<rparr>
     ''Body''
     \<lparr>sanitizeFrontmatter = True, addTimestampHeader = False, timestampFormat = [],
      forceExtension = None\<rparr>
   = (''Body'', False)"
proof -
  let ?d = "\<lparr>getFullYear = 2024, getMonth = 0, getDate = 1, getHours = 0, getMinutes = 0,
             getSeconds = 0\<rparr>"
  let ?o = "\<lparr>sanitizeFrontmatter = True, addTimestampHeader = False, timestampFormat = [],
             forceExtension = None\<rparr>"
  let ?raw = "''---'' @ NL # ''key: val'' @ NL # ''---'' @ NL # ''Body''"
  have s: "sanitizeFrontmatter ?o" "\<not> addTimestampHeader ?o" by simp_all
  have b: "?raw = ''---'' @ NL # ''key: val'' @ NL # ''---'' @ NL # ''Body''
           \<and> no_dash_line ''key: val''"
    by (simp add: no_dash_line_def)
  have "\<forall>body rest. ?raw = ''---'' @ NL # body @ NL # ''---'' @ NL # rest \<and> no_dash_line body \<longrightarrow>
          transformContent ?d ?raw ?o = (rest, True)"
    using frontmatter_strip_wellformed[OF s, of ?raw ?d] by (rule conjunct1)
  with b have first: "transformContent ?d ?raw ?o = (''Body'', True)" by blast
  have "\<not> prefix (''---'' @ [NL]) ''Body''" by simp
  with frontmatter_strip_wellformed[OF s, of "''Body''" ?d]
  have second: "transformContent ?d ''Body'' ?o = (''Body'', False)" by blast
  from first second show ?thesis by blast
qed

section \<open>Flattening and replicating folders\<close>

lemma split_on_append: "split_on d (a @ d # b) = split_on d a @ split_on d b"
  by (induction a) (auto split: list.splits simp: split_on_nonempty)

lemma split_on_single: "d \<notin> set s \<Longrightarrow> split_on d s = [s]"
  by (induction s) auto

lemma split_on_join:
  "ss \<noteq> [] \<Longrightarrow> \<forall>s \<in> set ss. d \<notin> set s \<Longrightarrow> split_on d (join_with d ss) = ss"
proof (induction d ss rule: join_with.induct)
  case (3 d s t ss)
  then show ?case by (simp add: split_on_append split_on_single)
qed (simp_all add: split_on_single)

lemma join_with_snoc: "qs \<noteq> [] \<Longrightarrow> join_with d (qs @ [l]) = join_with d qs @ d # l"
  by (induction d qs rule: join_with.induct) auto

lemma join_with_append:
  "qs \<noteq> [] \<Longrightarrow> rs \<noteq> [] \<Longrightarrow> join_with d (qs @ rs) = join_with d qs @ d # join_with d rs"
proof (induction d qs rule: join_with.induct)
  case (2 d s)
  then show ?case by (cases rs) auto
qed auto

lemma normalize_step_clean:
  "s \<noteq> [] \<Longrightarrow> s \<noteq> ''.'' \<Longrightarrow> s \<noteq> ''..'' \<Longrightarrow> normalize_step a st s = st @ [s]"
  by (simp add: normalize_step_def)

lemma foldl_normalize_clean:
  "clean_segments ss \<Longrightarrow> foldl (normalize_step a) st ss = st @ ss"
  by (induction ss arbitrary: st) (auto simp: clean_segments_def normalize_step_clean)

lemma foldl_normalize_split_join:
  assumes "clean_segments ss"
  shows "foldl (normalize_step a) st (split_path (join_segments ss)) = st @ ss"
proof (cases "ss = []")
  case True
  then show ?thesis by (simp add: normalize_step_def)
next
  case False
  with assms have "split_path (join_segments ss) = ss"
    by (intro split_on_join) (auto simp: clean_segments_def)
  with assms show ?thesis by (simp add: foldl_normalize_clean)
qed

lemma join_segments_nonempty:
  "clean_segments ss \<Longrightarrow> ss \<noteq> [] \<Longrightarrow> join_segments ss \<noteq> []"
  by (induction SEP ss rule: join_with.induct) (auto simp: clean_segments_def)

lemma last_join_segments:
  assumes "clean_segments ss" "ss \<noteq> []"
  shows "last (join_segments ss) = last (last ss)"
proof -
  from assms(2) obtain qs l where ss: "ss = qs @ [l]" by (metis rev_exhaust)
  with assms(1) have l: "l \<noteq> []" by (simp add: clean_segments_def)
  show ?thesis
  proof (cases "qs = []")
    case True with ss show ?thesis by simp
  next
    case False
    with ss l show ?thesis by (simp add: join_with_snoc)
  qed
qed

lemma basename_join_segments:
  assumes "clean_segments ss" "ss \<noteq> []"
  shows "basename (join_segments ss) = last ss"
proof -
  from assms(2) obtain qs l where ss: "ss = qs @ [l]" by (metis rev_exhaust)
  with assms(1) have l: "l \<noteq> []" "SEP \<notin> set l" by (simp_all add: clean_segments_def)
  then have hd: "hd (rev l) \<noteq> SEP" by (metis hd_rev last_in_set)
  have dw: "dropWhile (\<lambda>c. c = SEP) (rev l @ x) = rev l @ x" for x
    using l hd by (cases "rev l") auto
  have tw: "takeWhile (\<lambda>c. c \<noteq> SEP) (rev l @ SEP # x) = rev l" for x
    using l by (auto simp: takeWhile_tail)
  show ?thesis
  proof (cases "qs = []")
    case True
    have "takeWhile (\<lambda>c. c \<noteq> SEP) (rev l) = rev l"
      using l by auto
    then have "rev (takeWhile (\<lambda>c. c \<noteq> SEP) (rev l)) = l"
      by (simp only: rev_rev_ident)
    with True ss dw[of "[]"] show ?thesis by (simp add: basename_def last_segment_def)
  next
    case False
    then have "join_segments ss = join_segments qs @ SEP # l" using ss by (simp add: join_with_snoc)
    then show ?thesis using ss dw[of "SEP # rev (join_segments qs)"] tw[of "rev (join_segments qs)"]
      by (simp add: basename_def last_segment_def)
  qed
qed

lemma path_join_clean:
  assumes bs: "clean_segments bs" and ps: "clean_segments ps" and ne: "ps \<noteq> []"
  shows "path_join (SEP # join_segments bs) (join_segments ps) = SEP # join_segments (bs @ ps)"
proof -
  let ?j = "(SEP # join_segments bs) @ SEP # join_segments ps"
  have pne: "join_segments ps \<noteq> []" using ps ne by (rule join_segments_nonempty)
  have both: "clean_segments (bs @ ps)" using bs ps by (auto simp: clean_segments_def)
  have "split_path ?j = [] # split_path (join_segments bs) @ split_path (join_segments ps)"
    by (simp add: split_on_append)
  then have "foldl (normalize_step False) [] (split_path ?j) = bs @ ps"
    using foldl_normalize_split_join[OF bs, of False "[]"]
          foldl_normalize_split_join[OF ps, of False bs]
    by (simp add: normalize_step_def)
  then have ns: "normalizeString False ?j = join_segments (bs @ ps)"
    by (simp add: normalizeString_def)
  have resne: "join_segments (bs @ ps) \<noteq> []" using both ne by (intro join_segments_nonempty) auto
  have lastl: "last (last ps) \<noteq> SEP"
    using ps ne by (metis clean_segments_def last_in_set)
  have "last ?j = last (join_segments ps)" using pne by simp
  also have "\<dots> = last (last ps)" using ps ne by (rule last_join_segments)
  finally have nl: "last ?j \<noteq> SEP" using lastl by simp
  have "path_normalize ?j = SEP # join_segments (bs @ ps)"
    using ns resne nl unfolding path_normalize_def by (simp add: Let_def)
  then show ?thesis using pne by (simp add: path_join_def)
qed

text \<open>
  Claim C5. Without a forced extension the destination is the target base joined with
  the basename of the logical path when folders are not replicated, and joined with the
  whole logical path when they are. For a target base \<open>/b1/.../bm\<close> and a logical path
  \<open>p1/.../pn\<close> in normal form this is \<open>/b1/.../bm/pn\<close> and \<open>/b1/.../bm/p1/.../pn\<close>:
  flattening keeps only the last segment, replication keeps every directory component.
\<close>

theorem flatten_vs_replicate:
  assumes "\<not> truthy (forceExtension tr)"
  shows "push_destPath ctx tr p =
           path_join (targetBase ctx) (if replicateFolders ctx then p else basename p)
       \<and> (clean_segments bs \<and> clean_segments ps \<and> ps \<noteq> [] \<and>
          targetBase ctx = SEP # join_segments bs \<and> p = join_segments ps \<longrightarrow>
            push_destPath ctx tr p =
              SEP # join_segments (bs @ (if replicateFolders ctx then ps else [last ps])))"
proof (intro conjI impI)
  show g: "push_destPath ctx tr p =
           path_join (targetBase ctx) (if replicateFolders ctx then p else basename p)"
    using assms by (simp add: push_destPath_def)
  assume h: "clean_segments bs \<and> clean_segments ps \<and> ps \<noteq> [] \<and>
          targetBase ctx = SEP # join_segments bs \<and> p = join_segments ps"
  then have lastc: "clean_segments [last ps]" by (simp add: clean_segments_def)
  show "push_destPath ctx tr p =
              SEP # join_segments (bs @ (if replicateFolders ctx then ps else [last ps]))"
  proof (cases "replicateFolders ctx")
    case True
    with g h show ?thesis by (simp add: path_join_clean)
  next
    case False
    have "basename p = join_segments [last ps]" using h by (simp add: basename_join_segments)
    with False g h path_join_clean[OF _ lastc, of bs] show ?thesis by simp
  qed
qed


theorem flatten_vs_replicate_witness:
  "push_destPath
     \<lparr>replicateFolders = False, overwriteExisting = True, targetBase = ''/t''\<rparr>
     \<lparr>sanitizeFrontmatter = False, addTimestampHeader = False, timestampFormat = [],
      forceExtension = None\<rparr>
     ''folder/sub/note.md''
   = ''/t/note.md''
   \<and> push_destPath
     \<lparr>replicateFolders = True, overwriteExisting = True, targetBase = ''/t''\<rparr>
     \<lparr>sanitizeFrontmatter = False, addTimestampHeader = False, timestampFormat = [],
      forceExtension = None\<rparr>
     ''folder/sub/note.md''
   = ''/t/folder/sub/note.md''"
proof -
  let ?tr = "\<lparr>sanitizeFrontmatter = False, addTimestampHeader = False, timestampFormat = [],
              forceExtension = None\<rparr>"
  let ?flat = "\<lparr>replicateFolders = False, overwriteExisting = True, targetBase = ''/t''\<rparr>"
  let ?repl = "\<lparr>replicateFolders = True, overwriteExisting = True, targetBase = ''/t''\<rparr>"
  let ?p = "''folder/sub/note.md''"
  let ?bs = "[''t'']"
  let ?ps = "[''folder'', ''sub'', ''note.md'']"
  have a: "\<not> truthy (forceExtension ?tr)" by (simp add: truthy_def)
  have c1: "clean_segments ?bs \<and> clean_segments ?ps \<and> ?ps \<noteq> [] \<and>
            targetBase ?flat = SEP # join_segments ?bs \<and> ?p = join_segments ?ps"
    by (simp add: clean_segments_def)
  have c2: "clean_segments ?bs \<and> clean_segments ?ps \<and> ?ps \<noteq> [] \<and>
            targetBase ?repl = SEP # join_segments ?bs \<and> ?p = join_segments ?ps"
    by (simp add: clean_segments_def)
  have "push_destPath ?flat ?tr ?p =
          SEP # join_segments (?bs @ (if replicateFolders ?flat then ?ps else [last ?ps]))"
    using flatten_vs_replicate[OF a, of ?flat ?p ?bs ?ps] c1 by blast
  then have f: "push_destPath ?flat ?tr ?p = ''/t/note.md''" by simp
  have "push_destPath ?repl ?tr ?p =
          SEP # join_segments (?bs @ (if replicateFolders ?repl then ?ps else [last ?ps]))"
    using flatten_vs_replicate[OF a, of ?repl ?p ?bs ?ps] c2 by blast
  then have r: "push_destPath ?repl ?tr ?p = ''/t/folder/sub/note.md''" by simp
  from f r show ?thesis by blast
qed

section \<open>Pull\<close>

lemma computeTargetFilePath_unforced:
  "computeTargetFilePath p ctx (tr\<lparr>forceExtension := None\<rparr>) =
     path_join (targetBase ctx) (if replicateFolders ctx then p else basename p)"
  by (simp add: computeTargetFilePath_def truthy_def)

lemma fs_readFile_File: "fmlookup fs q = Some (File c) \<Longrightarrow> fs_readFile fs q = Inr c"
  by (simp add: fs_readFile_def)

lemma existsSync_File: "fmlookup fs q = Some (File c) \<Longrightarrow> existsSync fs q"
  by (simp add: existsSync_def)

text \<open>
  Claim C9. For a document of the store and a configured target: when the path computed
  with the folder and forced-extension rules holds a file, the document's content becomes
  exactly that file's content; otherwise, when a forced extension is configured and the
  path computed without the extension override holds a file, the document's content
  becomes exactly that file's content; nothing is transformed; and when neither
  candidate path exists the store is left as it was. No other document changes.
\<close>

theorem pullFile_content:
  assumes doc: "v p = Inr old"
  shows "(fmlookup fs (computeTargetFilePath p ctx tr) = Some (File c) \<longrightarrow>
            snd (pullFile (Some ctx) tr fs v p) = v(p := Inr c))
       \<and> (\<not> existsSync fs (computeTargetFilePath p ctx tr) \<and> truthy (forceExtension tr) \<and>
          fmlookup fs (computeTargetFilePath p ctx (tr\<lparr>forceExtension := None\<rparr>)) = Some (File c) \<longrightarrow>
            snd (pullFile (Some ctx) tr fs v p) = v(p := Inr c))
       \<and> (\<not> existsSync fs (computeTargetFilePath p ctx tr) \<and>
          (truthy (forceExtension tr) \<longrightarrow>
             \<not> existsSync fs (computeTargetFilePath p ctx (tr\<lparr>forceExtension := None\<rparr>))) \<longrightarrow>
            snd (pullFile (Some ctx) tr fs v p) = v)"
proof (intro conjI impI)
  assume "fmlookup fs (computeTargetFilePath p ctx tr) = Some (File c)"
  then show "snd (pullFile (Some ctx) tr fs v p) = v(p := Inr c)"
    using doc
    by (simp add: pullFile_def Let_def existsSync_File fs_readFile_File applyPulledContent_def
        vault_modify_def)
next
  assume "\<not> existsSync fs (computeTargetFilePath p ctx tr) \<and> truthy (forceExtension tr) \<and>
          fmlookup fs (computeTargetFilePath p ctx (tr\<lparr>forceExtension := None\<rparr>)) = Some (File c)"
  then show "snd (pullFile (Some ctx) tr fs v p) = v(p := Inr c)"
    using doc
    by (simp add: pullFile_def Let_def computeTargetFilePath_unforced existsSync_File
        fs_readFile_File applyPulledContent_def vault_modify_def)
next
  assume "\<not> existsSync fs (computeTargetFilePath p ctx tr) \<and>
          (truthy (forceExtension tr) \<longrightarrow>
             \<not> existsSync fs (computeTargetFilePath p ctx (tr\<lparr>forceExtension := None\<rparr>)))"
  then show "snd (pullFile (Some ctx) tr fs v p) = v"
    by (auto simp: pullFile_def Let_def computeTargetFilePath_unforced)
qed

theorem pullFile_content_witness:
  "snd (pullFile
         (Some \<lparr>replicateFolders = True, overwriteExisting = True, targetBase = ''/t''\<rparr>)
         \<lparr>sanitizeFrontmatter = True, addTimestampHeader = True, timestampFormat = [],
          forceExtension = Some ''.txt''\<rparr>
         (fmupd ''/t/a/n.txt'' (File (''---'' @ NL # ''k: v'' @ NL # ''---'' @ NL # ''new'')) fmempty)
         ((\<lambda>q. Inl Thrown)(''a/n.md'' := Inr ''old''))
         ''a/n.md'')
   = ((\<lambda>q. Inl Thrown)(''a/n.md'' := Inr ''old''))
       (''a/n.md'' := Inr (''---'' @ NL # ''k: v'' @ NL # ''---'' @ NL # ''new''))
   \<and> snd (pullFile
         (Some \<lparr>replicateFolders = True, overwriteExisting = True, targetBase = ''/t''\<rparr>)
         \<lparr>sanitizeFrontmatter = True, addTimestampHeader = True, timestampFormat = [],
          forceExtension = Some ''.txt''\<rparr>
         (fmupd ''/t/a/n.md'' (File ''fallback'') fmempty)
         ((\<lambda>q. Inl Thrown)(''a/n.md'' := Inr ''old''))
         ''a/n.md'')
   = ((\<lambda>q. Inl Thrown)(''a/n.md'' := Inr ''old''))(''a/n.md'' := Inr ''fallback'')
   \<and> snd (pullFile
         (Some \<lparr>replicateFolders = True, overwriteExisting = True, targetBase = ''/t''\<rparr>)
         \<lparr>sanitizeFrontmatter = True, addTimestampHeader = True, timestampFormat = [],
          forceExtension = Some ''.txt''\<rparr>
         fmempty
         ((\<lambda>q. Inl Thrown)(''a/n.md'' := Inr ''old''))
         ''a/n.md'')
   = (\<lambda>q. Inl Thrown)(''a/n.md'' := Inr ''old'')"
proof -
  let ?ctx = "\<lparr>replicateFolders = True, overwriteExisting = True, targetBase = ''/t''\<rparr>"
  let ?tr = "\<lparr>sanitizeFrontmatter = True, addTimestampHeader = True, timestampFormat = [],
              forceExtension = Some ''.txt''\<rparr>"
  let ?v = "(\<lambda>q. Inl Thrown)(''a/n.md'' := Inr ''old'') :: vault"
  let ?c = "''---'' @ NL # ''k: v'' @ NL # ''---'' @ NL # ''new''"
  have doc: "?v ''a/n.md'' = Inr ''old''" by simp
  have forced: "computeTargetFilePath ''a/n.md'' ?ctx ?tr = ''/t/a/n.txt''"
    by (simp add: computeTargetFilePath_def truthy_def ext_match_here_def path_join_def
        path_normalize_def normalizeString_def normalize_step_def)
  have unforced: "computeTargetFilePath ''a/n.md'' ?ctx
                    \<lparr>sanitizeFrontmatter = True, addTimestampHeader = True, timestampFormat = [],
                     forceExtension = None\<rparr> = ''/t/a/n.md''"
    by (simp add: computeTargetFilePath_def truthy_def path_join_def
        path_normalize_def normalizeString_def normalize_step_def)
  have t: "truthy (forceExtension ?tr)" by (simp add: truthy_def)
  have one: "snd (pullFile (Some ?ctx) ?tr (fmupd ''/t/a/n.txt'' (File ?c) fmempty) ?v ''a/n.md'')
             = ?v(''a/n.md'' := Inr ?c)"
    using pullFile_content[where v = ?v and p = "''a/n.md''" and old = "''old''" and ctx = ?ctx
        and tr = ?tr and fs = "fmupd ''/t/a/n.txt'' (File ?c) fmempty" and c = ?c, OF doc]
    by (simp only: forced fmupd_lookup if_True simp_thms)
  have two: "snd (pullFile (Some ?ctx) ?tr (fmupd ''/t/a/n.md'' (File ''fallback'') fmempty) ?v ''a/n.md'')
             = ?v(''a/n.md'' := Inr ''fallback'')"
    using pullFile_content[where v = ?v and p = "''a/n.md''" and old = "''old''" and ctx = ?ctx
        and tr = ?tr and fs = "fmupd ''/t/a/n.md'' (File ''fallback'') fmempty"
        and c = "''fallback''", OF doc] t
    by (simp add: forced unforced existsSync_def)
  have three: "snd (pullFile (Some ?ctx) ?tr fmempty ?v ''a/n.md'') = ?v"
    using pullFile_content[where v = ?v and p = "''a/n.md''" and old = "''old''" and ctx = ?ctx
        and tr = ?tr and fs = fmempty and c = "[]", OF doc] t
    by (simp add: forced unforced existsSync_def)
  from one two three show ?thesis by blast
qed

section \<open>The durable writer\<close>

lemma mkdir_one_lookup:
  "fmlookup (mkdir_one fs d) q = (if q = d \<and> fmlookup fs q = None then Some Dir else fmlookup fs q)"
  by (auto simp: mkdir_one_def existsSync_def)

lemma read_file_mkdir_one: "read_file (mkdir_one fs d) q = read_file fs q"
  by (auto simp: read_file_def mkdir_one_lookup)

lemma read_file_mkdir_recursive: "read_file (mkdir_recursive fs ds) q = read_file fs q"
  unfolding mkdir_recursive_def
  by (induction ds arbitrary: fs) (simp_all add: read_file_mkdir_one)

lemma existsSync_mkdir_recursive:
  "existsSync (mkdir_recursive fs ds) q \<longleftrightarrow> existsSync fs q \<or> q \<in> set ds"
  unfolding mkdir_recursive_def
  by (induction ds arbitrary: fs) (auto simp: existsSync_def mkdir_one_lookup)

lemma tmp_neq: "final @ ''.tmp'' \<noteq> final"
  by simp

lemma writeFile_states_lookup:
  "s \<in> set (writeFile_states fs tmp c k) \<Longrightarrow> q \<noteq> tmp \<Longrightarrow> fmlookup s q = fmlookup fs q"
  by (auto simp: writeFile_states_def)

lemma last_writeFile_states:
  "last (writeFile_states fs tmp c k) = fmupd tmp (File (take k c)) fs"
  by (simp add: writeFile_states_def last_map)

lemma cleanup_lookup: "q \<noteq> tmp \<Longrightarrow> fmlookup (cleanup flt s tmp) q = fmlookup s q"
  by (simp add: cleanup_def)

lemma fs_rename_lookup:
  "fmlookup fs src = Some n \<Longrightarrow> src \<noteq> dst \<Longrightarrow>
   fmlookup (fs_rename fs src dst) q = (if q = dst then Some n else if q = src then None else fmlookup fs q)"
  by (simp add: fs_rename_def)

text \<open>Every state of the write protocol: paths other than the temporary and the final
  one are untouched, and the final path holds its old node or the complete new file.\<close>

lemma writeFile_states_untouched:
  assumes "s \<in> set (writeFile_states fs (final @ ''.tmp'') c k)"
  shows "(\<forall>q. q \<noteq> final @ ''.tmp'' \<and> q \<noteq> final \<longrightarrow> fmlookup s q = fmlookup fs q)
       \<and> fmlookup s final = fmlookup fs final"
  using writeFile_states_lookup[OF assms] by simp

lemma cleanup_untouched:
  "(\<forall>q. q \<noteq> final @ ''.tmp'' \<and> q \<noteq> final \<longrightarrow>
       fmlookup (cleanup flt s (final @ ''.tmp'')) q = fmlookup s q)
   \<and> fmlookup (cleanup flt s (final @ ''.tmp'')) final = fmlookup s final"
  by (simp add: cleanup_lookup)

lemma durable_write_states:
  assumes dw: "durable_write flt fs final content = (states, e)" and s: "s \<in> set states"
  shows "(\<forall>q. q \<noteq> final @ ''.tmp'' \<and> q \<noteq> final \<longrightarrow> fmlookup s q = fmlookup fs q)
       \<and> (fmlookup s final = fmlookup fs final \<or> fmlookup s final = Some (File content))"
proof -
  let ?tmp = "final @ ''.tmp''"
  let ?P = "\<lambda>s. (\<forall>q. q \<noteq> ?tmp \<and> q \<noteq> final \<longrightarrow> fmlookup s q = fmlookup fs q)
       \<and> (fmlookup s final = fmlookup fs final \<or> fmlookup s final = Some (File content))"
  have P0: "?P fs" by simp
  have Pw: "?P s'" if "s' \<in> set (writeFile_states fs ?tmp content k)" for s' k
    using writeFile_states_untouched[OF that] by simp
  have Pc: "?P (cleanup flt s' ?tmp)" if "?P s'" "fmlookup s' final = fmlookup fs final" for s'
    using that cleanup_untouched[of final flt s'] by simp
  have Plast: "fmlookup (last (writeFile_states fs ?tmp content k)) final = fmlookup fs final" for k
    by (simp add: last_writeFile_states)
  have Plast': "?P (last (writeFile_states fs ?tmp content k))" for k
    by (simp add: last_writeFile_states)
  show ?thesis
  proof (cases "write_fault flt fs ?tmp")
    case (WriteRefused c)
    with dw have "states = [fs, cleanup flt fs ?tmp]" by (simp add: durable_write_def)
    with s P0 Pc[of fs] show ?thesis by auto
  next
    case (WritePartial k c)
    with dw have "states = fs # writeFile_states fs ?tmp content (min k (length content))
                    @ [cleanup flt (last (writeFile_states fs ?tmp content (min k (length content)))) ?tmp]"
      by (simp add: durable_write_def Let_def)
    with s P0 Pw Pc[OF Plast' Plast] show ?thesis by auto
  next
    case WriteOk
    let ?ws = "writeFile_states fs ?tmp content (length content)"
    show ?thesis
    proof (cases "rename_fault flt (last ?ws) ?tmp final")
      case (Some c)
      with WriteOk dw have "states = fs # ?ws @ [cleanup flt (last ?ws) ?tmp]"
        by (simp add: durable_write_def Let_def)
      with s P0 Pw Pc[OF Plast' Plast] show ?thesis by auto
    next
      case None
      with WriteOk dw have st: "states = fs # ?ws @ [fs_rename (last ?ws) ?tmp final]"
        by (simp add: durable_write_def Let_def)
      have "?P (fs_rename (last ?ws) ?tmp final)"
        by (simp add: last_writeFile_states fs_rename_lookup)
      with st s P0 Pw show ?thesis by auto
    qed
  qed
qed

lemma durable_write_nonempty: "durable_write flt fs final content = (states, e) \<Longrightarrow> states \<noteq> []"
  by (auto simp: durable_write_def Let_def split: wfault.splits option.splits)

lemma durable_write_failed:
  assumes dw: "durable_write flt fs final content = (states, Some x)"
  shows "(\<forall>q. q \<noteq> final @ ''.tmp'' \<longrightarrow> fmlookup (last states) q = fmlookup fs q)
       \<and> x = write_error (case x of PushError m c \<Rightarrow> c | _ \<Rightarrow> None) final"
  using dw
  by (auto simp: durable_write_def Let_def cleanup_lookup last_writeFile_states write_error_def
      split: wfault.splits option.splits)

lemma durable_write_done:
  assumes dw: "durable_write flt fs final content = (states, None)"
  shows "fmlookup (last states) q =
           (if q = final then Some (File content) else if q = final @ ''.tmp'' then None
            else fmlookup fs q)"
  using dw
  by (auto simp: durable_write_def Let_def last_writeFile_states fs_rename_lookup
      split: wfault.splits option.splits)

lemma last_mkdir_states: "last (mkdir_states fs ds) = mkdir_recursive fs ds"
  by (simp add: mkdir_states_def last_map)

lemma read_file_mkdir_states: "s \<in> set (mkdir_states fs ds) \<Longrightarrow> read_file s q = read_file fs q"
  by (auto simp: mkdir_states_def read_file_mkdir_recursive)

lemma mkdir_states_nonempty: "mkdir_states fs ds \<noteq> []"
  by (simp add: mkdir_states_def)

lemma read_file_eq: "fmlookup s q = fmlookup fs q \<Longrightarrow> read_file s q = read_file fs q"
  by (simp add: read_file_def)

lemma read_file_File: "fmlookup s q = Some (File c) \<Longrightarrow> read_file s q = Some c"
  by (simp add: read_file_def)

text \<open>The shape of a push that got past reading the document.\<close>

lemma pushSingleFile_steps_cases:
  assumes run: "pushSingleFile_steps flt now v fs p ctx tr = Some (r, states)"
      and doc: "v p = Inr raw"
      and fin: "push_finalPath fs ctx tr p = Some final"
  shows "(\<exists>k msg c. r = Inl (Error msg c) \<and>
            states = mkdir_states fs (take k (ancestors (dirname (push_destPath ctx tr p)))))
       \<or> (\<exists>ws e. durable_write flt (mkdir_recursive fs (ancestors (dirname (push_destPath ctx tr p))))
                     final (fst (transformContent now raw tr)) = (ws, e) \<and>
                  states = mkdir_states fs (ancestors (dirname (push_destPath ctx tr p))) @ ws \<and>
                  (case e of Some x \<Rightarrow> r = Inl x
                   | None \<Rightarrow> r = Inr \<lparr>source = p, finalPath = final,
                                       bytes = byteLength (fst (transformContent now raw tr)),
                                       transformed = snd (transformContent now raw tr)\<rparr>))"
proof -
  let ?dest = "push_destPath ctx tr p"
  let ?anc = "ancestors (dirname ?dest)"
  let ?content = "fst (transformContent now raw tr)"
  obtain content transformed where tc: "transformContent now raw tr = (content, transformed)"
    by (cases "transformContent now raw tr")
  from fin have rc: "resolve_collision (mkdir_recursive fs ?anc) (overwriteExisting ctx) ?dest = Some final"
    by (simp add: push_finalPath_def Let_def)
  show ?thesis
  proof (cases "mkdir_fault flt fs (dirname ?dest)")
    case (Some f)
    obtain k msg c where f: "f = (k, msg, c)" by (cases f)
    from run doc tc Some f have "r = Inl (Error msg c)" "states = mkdir_states fs (take k ?anc)"
      by (simp_all add: pushSingleFile_steps_def Let_def)
    then show ?thesis by blast
  next
    case None
    obtain ws e where dw: "durable_write flt (mkdir_recursive fs ?anc) final content = (ws, e)"
      by (cases "durable_write flt (mkdir_recursive fs ?anc) final content")
    from run doc tc None rc dw
    have "states = mkdir_states fs ?anc @ ws"
      and "case e of Some x \<Rightarrow> r = Inl x
           | None \<Rightarrow> r = Inr \<lparr>source = p, finalPath = final, bytes = byteLength content,
                               transformed = transformed\<rparr>"
      by (auto simp: pushSingleFile_steps_def Let_def split: option.splits)
    note rest = this
    have c1: "fst (transformContent now raw tr) = content"
      and c2: "snd (transformContent now raw tr) = transformed"
      using tc by simp_all
    show ?thesis
      unfolding c1 c2
      by (rule disjI2, rule exI[of _ ws], rule exI[of _ e]) (use dw rest in simp)
  qed
qed

text \<open>
  Claim C7. In every state the file system passes through during a push, from its start
  to its end, a reader of the final path finds what was there before the push (a file
  with its prior content, or no file) or the complete transformed content, never a part
  of it: the content grows only at the temporary path, and the final path changes in the
  single step of the rename. After a successful push the final path holds the complete
  transformed content.
\<close>

theorem atomic_write_visibility:
  assumes run: "pushSingleFile_steps flt now v fs p ctx tr = Some (r, states)"
      and doc: "v p = Inr raw"
      and fin: "push_finalPath fs ctx tr p = Some final"
  shows "(\<forall>s \<in> set states. read_file s final = read_file fs final
                            \<or> read_file s final = Some (fst (transformContent now raw tr)))
       \<and> (\<forall>res. r = Inr res \<longrightarrow>
             finalPath res = final \<and>
             read_file (last states) final = Some (fst (transformContent now raw tr)))"
proof -
  let ?anc = "ancestors (dirname (push_destPath ctx tr p))"
  let ?content = "fst (transformContent now raw tr)"
  from pushSingleFile_steps_cases[OF run doc fin]
  consider (dirs) k msg c where "r = Inl (Error msg c)" "states = mkdir_states fs (take k ?anc)"
    | (writing) ws e where "durable_write flt (mkdir_recursive fs ?anc) final ?content = (ws, e)"
        "states = mkdir_states fs ?anc @ ws"
        "case e of Some x \<Rightarrow> r = Inl x
         | None \<Rightarrow> r = Inr \<lparr>source = p, finalPath = final, bytes = byteLength ?content,
                             transformed = snd (transformContent now raw tr)\<rparr>"
    by blast
  then show ?thesis
  proof cases
    case dirs
    then show ?thesis by (auto simp: read_file_mkdir_states)
  next
    case writing
    have ws: "read_file s final = read_file fs final \<or> read_file s final = Some ?content"
      if "s \<in> set ws" for s
      using durable_write_states[OF writing(1) that]
      by (auto simp: read_file_def read_file_mkdir_recursive[unfolded read_file_def])
    have all: "\<forall>s \<in> set states. read_file s final = read_file fs final
                            \<or> read_file s final = Some ?content"
      using writing(2) ws by (auto simp: read_file_mkdir_states)
    have finished: "finalPath res = final \<and> read_file (last states) final = Some ?content"
      if "r = Inr res" for res
    proof -
      from that writing(3) have e: "e = None" by (cases e) auto
      with that writing(3) have "finalPath res = final" by auto
      moreover have "ws \<noteq> []" using writing(1) by (rule durable_write_nonempty)
      then have "last states = last ws" using writing(2) by simp
      moreover have "fmlookup (last ws) final = Some (File ?content)"
        using durable_write_done[OF writing(1)[unfolded e]] by simp
      ultimately show ?thesis by (simp add: read_file_File)
    qed
    from all finished show ?thesis by blast
  qed
qed

theorem atomic_write_visibility_witness:
  "\<exists>res states.
     pushSingleFile_steps no_faults new_year (one_note ''new'')
       (fmupd ''/t/n.md'' (File ''old'') fmempty) ''n.md''
       \<lparr>replicateFolders = True, overwriteExisting = True, targetBase = ''/t''\<rparr> plain
     = Some (Inr res, states)
     \<and> finalPath res = ''/t/n.md''
     \<and> (\<forall>s \<in> set states. read_file s ''/t/n.md'' = Some ''old''
                           \<or> read_file s ''/t/n.md'' = Some ''new'')
     \<and> read_file (last states) ''/t/n.md'' = Some ''new''"
proof -
  let ?fs = "fmupd ''/t/n.md'' (File ''old'') fmempty"
  let ?ctx = "\<lparr>replicateFolders = True, overwriteExisting = True, targetBase = ''/t''\<rparr>"
  have "\<exists>res states. pushSingleFile_steps no_faults new_year (one_note ''new'') ?fs ''n.md'' ?ctx plain
          = Some (Inr res, states)"
    by (simp add: pushSingleFile_steps_def no_faults_def one_note_def plain_def
        transformContent_def push_destPath_def truthy_def path_join_def path_normalize_def
        normalizeString_def normalize_step_def resolve_collision_def durable_write_def Let_def)
  then obtain res states
    where run: "pushSingleFile_steps no_faults new_year (one_note ''new'') ?fs ''n.md'' ?ctx plain
                  = Some (Inr res, states)"
    by blast
  have doc: "one_note ''new'' ''n.md'' = Inr ''new''" by (simp add: one_note_def)
  have fin: "push_finalPath ?fs ?ctx plain ''n.md'' = Some ''/t/n.md''"
    by (simp add: push_finalPath_def resolve_collision_def plain_def push_destPath_def truthy_def
        path_join_def path_normalize_def normalizeString_def normalize_step_def)
  have tc: "fst (transformContent new_year ''new'' plain) = ''new''"
    by (simp add: transformContent_def plain_def)
  have old: "read_file ?fs ''/t/n.md'' = Some ''old''" by (simp add: read_file_def)
  from atomic_write_visibility[OF run doc fin] run show ?thesis
    unfolding tc old by blast
qed


text \<open>
  Claim C10. When the write or the rename fails and \<open>pushSingleFile\<close> raises a
  \<open>PushError\<close>, the file at the final path is as it was before the operation (its prior
  content, or absent), and so is the file at every other path but the temporary one;
  the error names the final path. Directories created before the write may remain: they
  are not regular files.
\<close>

theorem failed_push_keeps_destination:
  assumes run: "pushSingleFile flt now v fs p ctx tr = Some (Inl (PushError m c), fs')"
      and doc: "v p = Inr raw"
      and fin: "push_finalPath fs ctx tr p = Some final"
  shows "read_file fs' final = read_file fs final
       \<and> (\<forall>q. q \<noteq> final @ ''.tmp'' \<longrightarrow> read_file fs' q = read_file fs q)
       \<and> PushError m c = write_error c final"
proof -
  let ?anc = "ancestors (dirname (push_destPath ctx tr p))"
  let ?content = "fst (transformContent now raw tr)"
  from run obtain states where st: "pushSingleFile_steps flt now v fs p ctx tr = Some (Inl (PushError m c), states)"
    and fs': "fs' = last states"
    by (auto simp: pushSingleFile_def)
  from pushSingleFile_steps_cases[OF st doc fin]
  obtain ws e where dw: "durable_write flt (mkdir_recursive fs ?anc) final ?content = (ws, e)"
     and states: "states = mkdir_states fs ?anc @ ws"
     and e: "case e of Some x \<Rightarrow> Inl (PushError m c) = (Inl x :: exn + PushResult) | None \<Rightarrow> False"
    by (auto split: option.splits)
  from e have e': "e = Some (PushError m c)" by (cases e) auto
  have "ws \<noteq> []" using dw by (rule durable_write_nonempty)
  then have last: "fs' = last ws" using fs' states by simp
  from durable_write_failed[OF dw[unfolded e']]
  have keep: "\<forall>q. q \<noteq> final @ ''.tmp'' \<longrightarrow> fmlookup (last ws) q = fmlookup (mkdir_recursive fs ?anc) q"
    and msg: "PushError m c = write_error c final" by simp_all
  have rd: "read_file fs' q = read_file fs q" if "q \<noteq> final @ ''.tmp''" for q
    using keep that last read_file_mkdir_recursive[of fs ?anc q] by (simp add: read_file_def)
  from rd msg show ?thesis by simp
qed

theorem failed_push_keeps_destination_witness:
  "\<exists>fs'.
     pushSingleFile (no_faults\<lparr>rename_fault := (\<lambda>fs a b. Some (Some ''EACCES''))\<rparr>) new_year
       (one_note ''new'') (fmupd ''/t/n.md'' (File ''old'') fmempty) ''n.md''
       \<lparr>replicateFolders = True, overwriteExisting = True, targetBase = ''/t''\<rparr> plain
     = Some (Inl (PushError ''Permission denied writing destination: /t/n.md'' (Some ''EACCES'')), fs')
     \<and> read_file fs' ''/t/n.md'' = Some ''old''"
proof -
  let ?flt = "no_faults\<lparr>rename_fault := (\<lambda>fs a b. Some (Some ''EACCES''))\<rparr>"
  let ?fs = "fmupd ''/t/n.md'' (File ''old'') fmempty"
  let ?ctx = "\<lparr>replicateFolders = True, overwriteExisting = True, targetBase = ''/t''\<rparr>"
  let ?m = "''Permission denied writing destination: /t/n.md''"
  have "\<exists>fs'. pushSingleFile ?flt new_year (one_note ''new'') ?fs ''n.md'' ?ctx plain
          = Some (Inl (PushError ?m (Some ''EACCES'')), fs')"
    by (simp add: pushSingleFile_def pushSingleFile_steps_def no_faults_def one_note_def plain_def
        transformContent_def push_destPath_def truthy_def path_join_def path_normalize_def
        normalizeString_def normalize_step_def resolve_collision_def durable_write_def Let_def
        write_error_def)
  then obtain fs'
    where run: "pushSingleFile ?flt new_year (one_note ''new'') ?fs ''n.md'' ?ctx plain
                  = Some (Inl (PushError ?m (Some ''EACCES'')), fs')"
    by blast
  have doc: "one_note ''new'' ''n.md'' = Inr ''new''" by (simp add: one_note_def)
  have fin: "push_finalPath ?fs ?ctx plain ''n.md'' = Some ''/t/n.md''"
    by (simp add: push_finalPath_def resolve_collision_def plain_def push_destPath_def truthy_def
        path_join_def path_normalize_def normalizeString_def normalize_step_def)
  have old: "read_file ?fs ''/t/n.md'' = Some ''old''" by (simp add: read_file_def)
  from failed_push_keeps_destination[OF run doc fin] run show ?thesis
    unfolding old by blast
qed


section \<open>The collision loop ends\<close>

text \<open>The decimal rendering is injective, so the candidates \<open>b-1ext\<close>, \<open>b-2ext\<close>, ...
  are pairwise distinct; a finite file system cannot hold them all.\<close>

lemma digit_char_inj: "a < 10 \<Longrightarrow> b < 10 \<Longrightarrow> digit_char a = digit_char b \<Longrightarrow> a = b"
proof -
  assume a: "a < 10" and b: "b < 10" and e: "digit_char a = digit_char b"
  have d: "distinct ''0123456789''" by simp
  have "''0123456789'' ! a = ''0123456789'' ! b" using e a b by (simp add: digit_char_def)
  with d a b show "a = b" by (simp add: nth_eq_iff_index_eq)
qed

lemma digit_char_not_dot: "digit_char n \<noteq> CHR ''.''"
proof -
  have "CHR ''.'' \<notin> set ''0123456789''" by simp
  moreover have "digit_char n \<in> set ''0123456789''"
    unfolding digit_char_def by (rule nth_mem) simp
  ultimately show ?thesis by metis
qed

lemma show_nat_nonempty: "show_nat n \<noteq> []"
  by (cases "n < 10") (simp_all add: show_nat_small show_nat_large)

lemma show_nat_no_dot: "CHR ''.'' \<notin> set (show_nat n)"
proof (induction n rule: show_nat.induct)
  case (1 n)
  show ?case
  proof (cases "n < 10")
    case True
    then show ?thesis using digit_char_not_dot[of n] by (simp add: show_nat_small)
  next
    case False
    then show ?thesis using 1 digit_char_not_dot[of "n mod 10"]
      by (simp add: show_nat_large)
  qed
qed

lemma show_nat_inj: "show_nat n = show_nat m \<Longrightarrow> n = m"
proof (induction n arbitrary: m rule: show_nat.induct)
  case (1 n)
  show ?case
  proof (cases "n < 10")
    case True
    note n = this
    show ?thesis
    proof (cases "m < 10")
      case True
      with n "1.prems" show ?thesis
        by (simp add: show_nat_small digit_char_inj)
    next
      case False
      with n "1.prems" show_nat_nonempty[of "m div 10"] show ?thesis
        by (simp add: show_nat_small show_nat_large)
    qed
  next
    case False
    note n = this
    show ?thesis
    proof (cases "m < 10")
      case True
      with n "1.prems" show_nat_nonempty[of "n div 10"] show ?thesis
        by (simp add: show_nat_small show_nat_large)
    next
      case False
      with n "1.prems" have e: "show_nat (n div 10) = show_nat (m div 10)"
        and d: "digit_char (n mod 10) = digit_char (m mod 10)"
        by (simp_all add: show_nat_large)
      from "1.IH"[OF n e] have "n div 10 = m div 10" .
      moreover from d have "n mod 10 = m mod 10" by (intro digit_char_inj) simp_all
      ultimately show ?thesis by (metis div_mult_mod_eq)
    qed
  qed
qed

lemma candidate_inj: "candidate b ext i = candidate b ext j \<Longrightarrow> i = j"
  by (simp add: candidate_def show_nat_inj)

lemma find_free_run:
  "\<not> existsSync fs (candidate b ext (n + d)) \<Longrightarrow>
   \<forall>j < d. existsSync fs (candidate b ext (n + j)) \<Longrightarrow>
   find_free fs b ext n = Some (n + d)"
proof (induction d arbitrary: n)
  case 0
  then show ?case by (subst find_free.simps) simp
next
  case (Suc d)
  from Suc.prems(2) have here: "existsSync fs (candidate b ext n)" by (metis add.right_neutral zero_less_Suc)
  have "find_free fs b ext (Suc n) = Some (Suc n + d)"
  proof (rule Suc.IH)
    show "\<not> existsSync fs (candidate b ext (Suc n + d))" using Suc.prems(1) by simp
    show "\<forall>j<d. existsSync fs (candidate b ext (Suc n + j))"
      using Suc.prems(2) by (metis add_Suc_shift Suc_less_eq)
  qed
  with here show ?case by (subst find_free.simps) simp
qed

lemma exists_free_candidate: "\<exists>i\<ge>n. \<not> existsSync fs (candidate b ext i)"
proof (rule ccontr)
  assume "\<not> ?thesis"
  then have all: "\<forall>i\<ge>n. existsSync fs (candidate b ext i)" by blast
  have "candidate b ext ` {n..} \<subseteq> fmdom' fs"
    using all by (auto simp: existsSync_def fmlookup_dom'_iff)
  then have "finite (candidate b ext ` {n..})" by (rule finite_subset) simp
  moreover have "inj_on (candidate b ext) {n..}" by (auto intro: inj_onI dest: candidate_inj)
  ultimately have "finite {n..}" by (rule finite_imageD)
  then show False by (simp add: infinite_Ici)
qed

lemma find_free_total:
  "\<exists>i. find_free fs b ext n = Some i \<and> n \<le> i \<and> \<not> existsSync fs (candidate b ext i) \<and>
       (\<forall>j. n \<le> j \<and> j < i \<longrightarrow> existsSync fs (candidate b ext j))"
proof -
  let ?P = "\<lambda>i. n \<le> i \<and> \<not> existsSync fs (candidate b ext i)"
  from exists_free_candidate[of n fs b ext] obtain i0 where "?P i0" by blast
  define i where "i = (LEAST i. ?P i)"
  have Pi: "?P i" unfolding i_def using \<open>?P i0\<close> by (rule LeastI)
  have least: "\<not> ?P j" if "j < i" for j using that not_less_Least unfolding i_def by blast
  define d where "d = i - n"
  have id: "i = n + d" using Pi by (simp add: d_def)
  have "find_free fs b ext n = Some (n + d)"
  proof (rule find_free_run)
    show "\<not> existsSync fs (candidate b ext (n + d))" using Pi id by simp
    show "\<forall>j<d. existsSync fs (candidate b ext (n + j))"
      using least id by auto
  qed
  with Pi id least show ?thesis by (intro exI[of _ i]) auto
qed

section \<open>Batch push\<close>

lemma resolve_collision_total: "\<exists>final. resolve_collision fs ow dest = Some final"
proof (cases "\<not> ow \<and> existsSync fs dest")
  case True
  obtain i where "find_free fs (take (length dest - length (extname dest)) dest) (extname dest) 1 = Some i"
    using find_free_total by blast
  with True show ?thesis by (simp add: resolve_collision_def Let_def)
next
  case False
  then show ?thesis by (auto simp: resolve_collision_def)
qed

lemma pushSingleFile_steps_total:
  "\<exists>r states. pushSingleFile_steps flt now v fs p ctx tr = Some (r, states)"
proof (cases "v p")
  case (Inl e)
  then show ?thesis by (simp add: pushSingleFile_steps_def)
next
  case (Inr raw)
  let ?dest = "push_destPath ctx tr p"
  let ?anc = "ancestors (dirname ?dest)"
  obtain content transformed where tc: "transformContent now raw tr = (content, transformed)"
    by (cases "transformContent now raw tr")
  show ?thesis
  proof (cases "mkdir_fault flt fs (dirname ?dest)")
    case (Some f)
    obtain k msg c where "f = (k, msg, c)" by (cases f)
    with Some Inr tc show ?thesis by (simp add: pushSingleFile_steps_def Let_def)
  next
    case None
    obtain final where rc: "resolve_collision (mkdir_recursive fs ?anc) (overwriteExisting ctx) ?dest = Some final"
      using resolve_collision_total by blast
    obtain ws e where dw: "durable_write flt (mkdir_recursive fs ?anc) final content = (ws, e)"
      by (cases "durable_write flt (mkdir_recursive fs ?anc) final content")
    from Inr tc None rc dw show ?thesis
      by (cases e) (simp_all add: pushSingleFile_steps_def Let_def)
  qed
qed

lemma pushSingleFile_total: "\<exists>r fs'. pushSingleFile flt now v fs p ctx tr = Some (r, fs')"
  using pushSingleFile_steps_total[of flt now v fs p ctx tr]
  by (auto simp: pushSingleFile_def)

lemma pushSingleFile_source:
  assumes "pushSingleFile flt now v fs p ctx tr = Some (Inr res, fs')"
  shows "source res = p"
proof -
  from assms obtain states where st: "pushSingleFile_steps flt now v fs p ctx tr = Some (Inr res, states)"
    by (auto simp: pushSingleFile_def)
  then show ?thesis
    by (auto simp: pushSingleFile_steps_def Let_def
        split: sum.splits prod.splits option.splits)
qed

lemma to_failure_file: "file' (to_failure p e) = p"
  by (cases e) (simp_all add: to_failure_def)

lemma push_each_total:
  "\<exists>outs fs'. push_each flt clock v ctx tr files t fs = Some (outs, fs') \<and> length outs = length files"
proof (induction files arbitrary: t fs)
  case Nil
  then show ?case by simp
next
  case (Cons f files)
  obtain out fs1 where one: "pushSingleFile flt (clock t) v fs f ctx tr = Some (out, fs1)"
    using pushSingleFile_total by blast
  from Cons.IH[of "Suc t" fs1] obtain outs fs'
    where "push_each flt clock v ctx tr files (Suc t) fs1 = Some (outs, fs')" "length outs = length files"
    by blast
  with one show ?case by simp
qed

text \<open>The loop with its accumulators files every outcome of \<open>push_each\<close> under its own
  class: a returned result at the end of \<open>successes\<close>, a thrown value, converted, at the
  end of \<open>failures\<close>.\<close>

lemma pushMultiple_loop_push_each:
  "push_each flt clock v ctx tr files t fs = Some (outs, fs') \<Longrightarrow>
   pushMultiple_loop flt clock v ctx tr files t fs succs fails =
     Some (\<lparr>successes = succs @ map projr (filter (\<lambda>out. \<not> isl out) outs),
            failures = fails @ map (\<lambda>(f, out). to_failure f (projl out))
                                 (filter (\<lambda>(f, out). isl out) (zip files outs))\<rparr>, fs')"
proof (induction files arbitrary: t fs succs fails outs)
  case Nil
  then show ?case by simp
next
  case (Cons f files)
  from Cons.prems obtain out fs1 rest where
    one: "pushSingleFile flt (clock t) v fs f ctx tr = Some (out, fs1)"
    and more: "push_each flt clock v ctx tr files (Suc t) fs1 = Some (rest, fs')"
    and outs: "outs = out # rest"
    by (auto split: option.splits)
  show ?case
  proof (cases out)
    case (Inl e)
    with one outs Cons.IH[OF more, of succs "fails @ [to_failure f e]"] show ?thesis by simp
  next
    case (Inr r)
    with one outs Cons.IH[OF more, of "succs @ [r]" fails] show ?thesis by simp
  qed
qed

lemma push_each_sources:
  "push_each flt clock v ctx tr files t fs = Some (outs, fs') \<Longrightarrow>
   map source (map projr (filter (\<lambda>out. \<not> isl out) outs))
     = map fst (filter (\<lambda>(f, out). \<not> isl out) (zip files outs))"
proof (induction files arbitrary: t fs outs)
  case Nil
  then show ?case by simp
next
  case (Cons f files)
  from Cons.prems obtain out fs1 rest where
    one: "pushSingleFile flt (clock t) v fs f ctx tr = Some (out, fs1)"
    and more: "push_each flt clock v ctx tr files (Suc t) fs1 = Some (rest, fs')"
    and outs: "outs = out # rest"
    by (auto split: option.splits)
  show ?case
  proof (cases out)
    case (Inl e)
    with outs Cons.IH[OF more] show ?thesis by simp
  next
    case (Inr r)
    with one have "source r = f" using pushSingleFile_source by blast
    with Inr outs Cons.IH[OF more] show ?thesis by simp
  qed
qed

lemma failure_files:
  "map file' (map (\<lambda>(f, out). to_failure f (projl out)) xs) = map fst xs"
  by (induction xs) (auto simp: to_failure_file)

lemma partition_length:
  "length outs = length files \<Longrightarrow>
   length (filter (\<lambda>out. \<not> isl out) outs) + length (filter (\<lambda>(f, out). isl out) (zip files outs))
     = length files"
proof (induction files arbitrary: outs)
  case Nil
  then show ?case by simp
next
  case (Cons f files)
  then obtain out rest where "outs = out # rest" "length rest = length files"
    by (cases outs) auto
  with Cons.IH[of rest] show ?case by simp
qed

text \<open>
  Claim C1. For every sequence of input files, every environment and every file system,
  \<open>pushMultiple\<close> returns (the collision loops end) and returns a batch result, not a
  thrown value. Let \<open>outs\<close> be the outcomes of the single-file pushes, run in input order,
  each in the file system the previous one left. Then \<open>successes\<close> holds exactly the
  results of the pushes that returned, in input order, and \<open>failures\<close> holds exactly one
  record for every push that threw, in input order, made from the thrown value and the
  path of that file. So every input contributes one record, to \<open>successes\<close> if and only
  if its push returned: the sources of \<open>successes\<close> are the paths of the files whose push
  returned, the \<open>file\<close> fields of \<open>failures\<close> are the paths of the files whose push threw,
  and the two lengths add up to the number of inputs.
\<close>

theorem pushMultiple_partition:
  "\<exists>outs fs' res.
     push_each flt clock v ctx tr files 0 fs = Some (outs, fs') \<and>
     length outs = length files \<and>
     pushMultiple flt clock v fs files ctx tr = Some (Inr res, fs') \<and>
     successes res = map projr (filter (\<lambda>out. \<not> isl out) outs) \<and>
     failures res = map (\<lambda>(f, out). to_failure f (projl out))
                      (filter (\<lambda>(f, out). isl out) (zip files outs)) \<and>
     map source (successes res) = map fst (filter (\<lambda>(f, out). \<not> isl out) (zip files outs)) \<and>
     map file' (failures res) = map fst (filter (\<lambda>(f, out). isl out) (zip files outs)) \<and>
     length (successes res) + length (failures res) = length files"
proof -
  obtain outs fs' where pe: "push_each flt clock v ctx tr files 0 fs = Some (outs, fs')"
    and len: "length outs = length files"
    using push_each_total by blast
  let ?res = "\<lparr>successes = map projr (filter (\<lambda>out. \<not> isl out) outs),
               failures = map (\<lambda>(f, out). to_failure f (projl out))
                            (filter (\<lambda>(f, out). isl out) (zip files outs))\<rparr>"
  have run: "pushMultiple flt clock v fs files ctx tr = Some (Inr ?res, fs')"
    using pushMultiple_loop_push_each[OF pe, of "[]" "[]"] by (simp add: pushMultiple_def)
  have src: "map source (successes ?res) = map fst (filter (\<lambda>(f, out). \<not> isl out) (zip files outs))"
    using push_each_sources[OF pe] by simp
  have fl: "map file' (failures ?res) = map fst (filter (\<lambda>(f, out). isl out) (zip files outs))"
    by (simp add: to_failure_file)
  have n: "length (successes ?res) + length (failures ?res) = length files"
    using partition_length[OF len] by simp
  show ?thesis
    by (rule exI[of _ outs], rule exI[of _ fs'], rule exI[of _ ?res])
       (use pe len run src fl n in simp)
qed

section \<open>Consecutive pushes of one document\<close>

lemma extname_dot: "extname p = [] \<or> hd (extname p) = CHR ''.''"
  by (simp add: extname_def Let_def)

lemma length_dirname_scan: "length (dirname_scan p) \<le> length p - 1"
proof -
  have "length (dirname_scan p) \<le> length (dropWhile (\<lambda>c. c = SEP) (rev (tl p)))"
    unfolding dirname_scan_def by (rule length_dropWhile_le)
  also have "\<dots> \<le> length (rev (tl p))" by (rule length_dropWhile_le)
  finally show ?thesis by simp
qed

lemma dirname_cases:
  "dirname p = ''.'' \<or> dirname p = ''/'' \<or> (dirname p = ''//'' \<and> 2 \<le> length p)
   \<or> (\<exists>n < length p. dirname p = take n p)"
proof (cases "p = []")
  case True
  then show ?thesis by (simp add: dirname_def)
next
  case False
  have rl: "length (dirname_scan p) \<le> length p - 1" by (rule length_dirname_scan)
  have pl: "1 \<le> length p" using False by (cases p) auto
  show ?thesis
  proof (cases "dirname_scan p = []")
    case True
    with False show ?thesis by (simp add: dirname_def Let_def)
  next
    case rne: False
    show ?thesis
    proof (cases "hd p = SEP \<and> length (dirname_scan p) = 1")
      case True
      with False rne rl pl have "dirname p = ''//''" "2 \<le> length p"
        by (simp_all add: dirname_def Let_def)
      then show ?thesis by blast
    next
      case False
      with \<open>p \<noteq> []\<close> rne have "dirname p = take (length (dirname_scan p)) p"
        by (auto simp: dirname_def Let_def)
      moreover have "length (dirname_scan p) < length p" using rl pl by simp
      ultimately show ?thesis by blast
    qed
  qed
qed

lemma length_dirname: "length (dirname p) \<le> max 1 (length p)"
  using dirname_cases[of p] by auto

lemma dirname_slashes: "dirname ''//'' = ''/''"
  by (simp add: dirname_def dirname_scan_def)

lemma dirname_fixed:
  assumes "dirname p = p"
  shows "p = ''/'' \<or> p = ''.''"
proof -
  from dirname_cases[of p]
  consider "dirname p = ''.''" | "dirname p = ''/''" | "dirname p = ''//''"
    | n where "n < length p" "dirname p = take n p"
    by blast
  then show ?thesis
  proof cases
    case 1
    with assms show ?thesis by metis
  next
    case 2
    with assms show ?thesis by metis
  next
    case 3
    with assms have "p = ''//''" by metis
    with 3 dirname_slashes show ?thesis by simp
  next
    case 4
    with assms have "take n p = p" by metis
    then have "length (take n p) = length p" by (rule arg_cong)
    then have "min (length p) n = length p" by (simp only: length_take)
    with 4(1) show ?thesis by linarith
  qed
qed

lemma ancestors_length: "q \<in> set (ancestors d) \<Longrightarrow> q = d \<or> (q \<noteq> [] \<and> length q < length d)"
  by (auto simp: ancestors_def)

lemma candidate_length:
  "length (candidate (take (length dest - length ext) dest) ext i) \<ge> length dest + 2"
proof -
  have "length (show_nat i) \<ge> 1" using show_nat_nonempty[of i] by (cases "show_nat i") auto
  then show ?thesis by (simp add: candidate_def)
qed

lemma candidate_not_ancestor:
  "candidate (take (length dest - length ext) dest) ext i \<notin> set (ancestors (dirname dest))"
proof
  let ?c = "candidate (take (length dest - length ext) dest) ext i"
  assume "?c \<in> set (ancestors (dirname dest))"
  then have "length ?c \<le> length (dirname dest)" using ancestors_length by fastforce
  with length_dirname[of dest] candidate_length[of dest ext i] show False by simp
qed

lemma dest_not_ancestor:
  assumes "dest \<noteq> ''/''" "dest \<noteq> ''.''"
  shows "dest \<notin> set (ancestors (dirname dest))"
proof
  assume "dest \<in> set (ancestors (dirname dest))"
  then consider "dest = dirname dest" | "dest \<noteq> []" "length dest < length (dirname dest)"
    using ancestors_length by blast
  then show False
  proof cases
    case 1
    with dirname_fixed[of dest] assms show False by simp
  next
    case 2
    with length_dirname[of dest] show False by (cases dest) auto
  qed
qed

lemma candidate_not_tmp:
  assumes "ext = [] \<or> hd ext = CHR ''.''"
  shows "candidate b ext i \<noteq> candidate b ext k @ ''.tmp''"
proof
  assume "candidate b ext i = candidate b ext k @ ''.tmp''"
  then have eq: "show_nat i @ ext = show_nat k @ ext @ ''.tmp''" by (simp add: candidate_def)
  then have "length (show_nat i @ ext) = length (show_nat k @ ext @ ''.tmp'')" by (rule arg_cong)
  then have "length (show_nat i) = length (show_nat k) + 4" by simp
  then have lt: "length (show_nat k) < length (show_nat i)" by simp
  have "(show_nat i @ ext) ! length (show_nat k) = show_nat i ! length (show_nat k)"
    using lt by (simp add: nth_append)
  moreover have "(show_nat k @ ext @ ''.tmp'') ! length (show_nat k) = hd (ext @ ''.tmp'')"
    by (simp add: nth_append hd_conv_nth)
  moreover have "hd (ext @ ''.tmp'') = CHR ''.''" using assms by (cases ext) auto
  ultimately have "show_nat i ! length (show_nat k) = CHR ''.''" using eq by simp
  then have "CHR ''.'' \<in> set (show_nat i)" using lt by (metis nth_mem)
  then show False using show_nat_no_dot by blast
qed

lemma durable_write_fault_free:
  assumes "fault_free flt"
  shows "\<exists>states. durable_write flt fs final content = (states, None)"
  using assms by (simp add: fault_free_def durable_write_def Let_def)

lemma push_fault_free:
  assumes ff: "fault_free flt" and doc: "v p = Inr raw"
      and fin: "push_finalPath fs ctx tr p = Some final"
  shows "\<exists>res fs'. pushSingleFile flt now v fs p ctx tr = Some (Inr res, fs') \<and>
           finalPath res = final \<and>
           (\<forall>q. fmlookup fs' q =
                  (if q = final then Some (File (fst (transformContent now raw tr)))
                   else if q = final @ ''.tmp'' then None
                   else fmlookup (mkdir_recursive fs (ancestors (dirname (push_destPath ctx tr p)))) q))"
proof -
  let ?dest = "push_destPath ctx tr p"
  let ?anc = "ancestors (dirname ?dest)"
  let ?fs1 = "mkdir_recursive fs ?anc"
  obtain content transformed where tc: "transformContent now raw tr = (content, transformed)"
    by (cases "transformContent now raw tr")
  from fin have rc: "resolve_collision ?fs1 (overwriteExisting ctx) ?dest = Some final"
    by (simp add: push_finalPath_def Let_def)
  obtain states where dw: "durable_write flt ?fs1 final content = (states, None)"
    using durable_write_fault_free[OF ff] by blast
  have mk: "mkdir_fault flt fs (dirname ?dest) = None" using ff by (simp add: fault_free_def)
  let ?res = "\<lparr>source = p, finalPath = final, bytes = byteLength content, transformed = transformed\<rparr>"
  have steps: "pushSingleFile_steps flt now v fs p ctx tr = Some (Inr ?res, mkdir_states fs ?anc @ states)"
    using doc tc mk rc dw by (simp add: pushSingleFile_steps_def Let_def)
  have ne: "states \<noteq> []" using dw by (rule durable_write_nonempty)
  have run: "pushSingleFile flt now v fs p ctx tr = Some (Inr ?res, last states)"
    using steps ne by (simp add: pushSingleFile_def)
  have look: "fmlookup (last states) q =
           (if q = final then Some (File content) else if q = final @ ''.tmp'' then None
            else fmlookup ?fs1 q)" for q
    using durable_write_done[OF dw] .
  show ?thesis
    by (rule exI[of _ ?res], rule exI[of _ "last states"]) (use run look tc in simp)
qed

lemma tmp_length: "length (final @ ''.tmp'') = length final + 4"
  by simp

lemma push_step:
  assumes ff: "fault_free flt" and doc: "v p = Inr raw" and ow: "\<not> overwriteExisting ctx"
      and dest: "dest = push_destPath ctx tr p"
      and ext: "ext = extname dest"
      and b: "b = take (length dest - length ext) dest"
      and root: "existsSync fs ''/''" and cwd: "existsSync fs ''.''"
      and inv_dest: "existsSync fs dest \<longleftrightarrow> 0 < k"
      and inv_cand: "\<forall>i\<ge>1. existsSync fs (candidate b ext i) \<longleftrightarrow> i < k"
  shows "\<exists>res fs'. pushSingleFile flt now v fs p ctx tr = Some (Inr res, fs') \<and>
           finalPath res = (if k = 0 then dest else candidate b ext k) \<and>
           existsSync fs' ''/'' \<and> existsSync fs' ''.'' \<and>
           (existsSync fs' dest \<longleftrightarrow> 0 < Suc k) \<and>
           (\<forall>i\<ge>1. existsSync fs' (candidate b ext i) \<longleftrightarrow> i < Suc k)"
proof -
  let ?anc = "ancestors (dirname dest)"
  let ?fs1 = "mkdir_recursive fs ?anc"
  let ?final = "if k = 0 then dest else candidate b ext k"
  have cl: "length dest + 2 \<le> length (candidate b ext i)" for i
    unfolding b by (rule candidate_length)
  have e1: "existsSync ?fs1 dest \<longleftrightarrow> existsSync fs dest"
  proof (cases "existsSync fs dest")
    case True
    then show ?thesis by (simp add: existsSync_mkdir_recursive)
  next
    case False
    with root cwd have "dest \<noteq> ''/''" "dest \<noteq> ''.''" by auto
    then have "dest \<notin> set ?anc" by (rule dest_not_ancestor)
    then show ?thesis by (simp add: existsSync_mkdir_recursive)
  qed
  have e2: "existsSync ?fs1 (candidate b ext i) \<longleftrightarrow> existsSync fs (candidate b ext i)" for i
    using candidate_not_ancestor[of dest ext i] by (simp add: existsSync_mkdir_recursive b)
  have fin: "push_finalPath fs ctx tr p = Some ?final"
  proof (cases "k = 0")
    case True
    with inv_dest e1 have "\<not> existsSync ?fs1 dest" by simp
    with True show ?thesis by (simp add: push_finalPath_def Let_def resolve_collision_def dest[symmetric])
  next
    case False
    with inv_dest e1 have ex: "existsSync ?fs1 dest" by simp
    have "find_free ?fs1 b ext 1 = Some (1 + (k - 1))"
    proof (rule find_free_run)
      show "\<not> existsSync ?fs1 (candidate b ext (1 + (k - 1)))"
        using False inv_cand e2 by simp
      show "\<forall>j<k - 1. existsSync ?fs1 (candidate b ext (1 + j))"
        using inv_cand e2 by auto
    qed
    then have "find_free ?fs1 b ext 1 = Some k" using False by simp
    with False ex ow show ?thesis
      by (simp add: push_finalPath_def Let_def resolve_collision_def dest[symmetric] ext[symmetric] b[symmetric])
  qed
  from push_fault_free[where flt = flt and v = v and p = p and raw = raw and fs = fs
      and ctx = ctx and tr = tr and final = ?final and now = now, OF ff doc fin]
  obtain res fs' where run: "pushSingleFile flt now v fs p ctx tr = Some (Inr res, fs')"
    and fp: "finalPath res = ?final"
    and look: "\<And>q. fmlookup fs' q =
                  (if q = ?final then Some (File (fst (transformContent now raw tr)))
                   else if q = ?final @ ''.tmp'' then None
                   else fmlookup ?fs1 q)"
    unfolding dest by blast
  have ex': "existsSync fs' q \<longleftrightarrow> q = ?final \<or> (q \<noteq> ?final @ ''.tmp'' \<and> existsSync ?fs1 q)" for q
    using look[of q] by (auto simp: existsSync_def)
  have fl: "length dest \<le> length ?final" using cl[of k] by simp
  have short: "q \<noteq> ?final @ ''.tmp''" if "length q \<le> length dest" for q
  proof
    assume "q = ?final @ ''.tmp''"
    then have "length q = length ?final + 4" by (simp only: tmp_length)
    with fl that show False by simp
  qed
  have r': "existsSync fs' ''/''"
  proof -
    have "(''/'' :: string) \<noteq> ?final @ ''.tmp''" by (cases "k = 0") auto
    with root show ?thesis by (simp add: ex' existsSync_mkdir_recursive)
  qed
  have c': "existsSync fs' ''.''"
  proof -
    have "(''.'' :: string) \<noteq> ?final @ ''.tmp''" by (cases "k = 0") auto
    with cwd show ?thesis by (simp add: ex' existsSync_mkdir_recursive)
  qed
  have d': "existsSync fs' dest"
  proof (cases "k = 0")
    case True
    then show ?thesis by (simp add: ex')
  next
    case False
    with inv_dest e1 have "existsSync ?fs1 dest" by simp
    with short[of dest] show ?thesis by (simp add: ex')
  qed
  have cand': "existsSync fs' (candidate b ext i) \<longleftrightarrow> i < Suc k" if i: "1 \<le> i" for i
  proof (cases "k = 0")
    case True
    have "candidate b ext i \<noteq> dest" using cl[of i] by auto
    moreover have "\<not> existsSync ?fs1 (candidate b ext i)" using inv_cand e2 i True by simp
    ultimately show ?thesis using True i by (simp add: ex')
  next
    case False
    have nt: "candidate b ext i \<noteq> candidate b ext k @ ''.tmp''"
      by (rule candidate_not_tmp) (use extname_dot[of dest] ext in simp)
    have "candidate b ext i = candidate b ext k \<longleftrightarrow> i = k" using candidate_inj by blast
    with False nt inv_cand e2 i show ?thesis by (auto simp: ex')
  qed
  from run fp r' c' d' cand' show ?thesis by auto
qed

lemma consecutive_loop:
  assumes ff: "fault_free flt" and doc: "v p = Inr raw" and ow: "\<not> overwriteExisting ctx"
      and dest: "dest = push_destPath ctx tr p"
      and ext: "ext = extname dest"
      and b: "b = take (length dest - length ext) dest"
  shows "existsSync fs ''/'' \<Longrightarrow> existsSync fs ''.'' \<Longrightarrow>
         (existsSync fs dest \<longleftrightarrow> 0 < k) \<Longrightarrow>
         (\<forall>i\<ge>1. existsSync fs (candidate b ext i) \<longleftrightarrow> i < k) \<Longrightarrow>
         \<exists>res fs'. pushMultiple_loop flt clock v ctx tr (replicate n p) t fs succs fails = Some (res, fs') \<and>
           failures res = fails \<and>
           map finalPath (successes res) =
             map finalPath succs @ map (\<lambda>j. if j = 0 then dest else candidate b ext j) [k..<k + n]"
proof (induction n arbitrary: k t fs succs)
  case 0
  then show ?case by simp
next
  case (Suc n)
  from push_step[where v = v and p = p and flt = flt and ctx = ctx and tr = tr
      and now = "clock t" and k = k and fs = fs,
      OF ff doc ow dest ext b Suc.prems(1) Suc.prems(2) Suc.prems(3) Suc.prems(4)]
  obtain r1 fs1 where run1: "pushSingleFile flt (clock t) v fs p ctx tr = Some (Inr r1, fs1)"
    and fp1: "finalPath r1 = (if k = 0 then dest else candidate b ext k)"
    and i1: "existsSync fs1 ''/''" and i2: "existsSync fs1 ''.''"
    and i3: "existsSync fs1 dest \<longleftrightarrow> 0 < Suc k"
    and i4: "\<forall>i\<ge>1. existsSync fs1 (candidate b ext i) \<longleftrightarrow> i < Suc k"
    by blast
  from Suc.IH[OF i1 i2 i3 i4, of "Suc t" "succs @ [r1]"]
  obtain res fs' where
    rest: "pushMultiple_loop flt clock v ctx tr (replicate n p) (Suc t) fs1 (succs @ [r1]) fails = Some (res, fs')"
    and fl: "failures res = fails"
    and ps: "map finalPath (successes res) =
             map finalPath (succs @ [r1]) @ map (\<lambda>j. if j = 0 then dest else candidate b ext j) [Suc k..<Suc k + n]"
    by blast
  have up: "[k..<k + Suc n] = k # [Suc k..<Suc k + n]" by (simp add: upt_conv_Cons)
  have "pushMultiple_loop flt clock v ctx tr (replicate (Suc n) p) t fs succs fails = Some (res, fs')"
    using run1 rest by simp
  moreover have "map finalPath (successes res) =
             map finalPath succs @ map (\<lambda>j. if j = 0 then dest else candidate b ext j) [k..<k + Suc n]"
    unfolding up using ps fp1 by simp
  ultimately show ?case using fl by blast
qed

lemma final_paths_distinct:
  assumes b: "b = take (length dest - length ext) dest"
  shows "distinct (map (\<lambda>j. if j = 0 then dest else candidate b ext j) [0..<n])"
proof -
  have "inj_on (\<lambda>j. if j = 0 then dest else candidate b ext j) (set [0..<n])"
  proof (rule inj_onI)
    fix x y
    assume e: "(if x = 0 then dest else candidate b ext x) = (if y = 0 then dest else candidate b ext y)"
    have ne: "candidate b ext i \<noteq> dest" for i
      using candidate_length[of dest ext i] unfolding b by auto
    show "x = y"
    proof (cases "x = 0")
      case True
      with e ne[of y] show ?thesis by (cases "y = 0") auto
    next
      case False
      with e ne[of x] have "y \<noteq> 0" by (cases "y = 0") auto
      with False e show ?thesis using candidate_inj by auto
    qed
  qed
  then show ?thesis by (simp add: distinct_map)
qed

lemma resolve_collision_spec:
  "(ow \<or> \<not> existsSync fs dest \<longrightarrow> resolve_collision fs ow dest = Some dest)
   \<and> (\<not> ow \<and> existsSync fs dest \<longrightarrow>
        (\<exists>i\<ge>1. resolve_collision fs ow dest =
                   Some (candidate (take (length dest - length (extname dest)) dest) (extname dest) i)
                \<and> \<not> existsSync fs (candidate (take (length dest - length (extname dest)) dest) (extname dest) i)
                \<and> (\<forall>j. 1 \<le> j \<and> j < i \<longrightarrow>
                       existsSync fs (candidate (take (length dest - length (extname dest)) dest) (extname dest) j))))"
proof (intro conjI impI)
  assume "ow \<or> \<not> existsSync fs dest"
  then show "resolve_collision fs ow dest = Some dest" by (auto simp: resolve_collision_def)
next
  let ?b = "take (length dest - length (extname dest)) dest"
  let ?e = "extname dest"
  assume h: "\<not> ow \<and> existsSync fs dest"
  from find_free_total[of fs ?b ?e 1]
  obtain i where "find_free fs ?b ?e 1 = Some i" "1 \<le> i" "\<not> existsSync fs (candidate ?b ?e i)"
    "\<forall>j. 1 \<le> j \<and> j < i \<longrightarrow> existsSync fs (candidate ?b ?e j)" by blast
  with h show "\<exists>i\<ge>1. resolve_collision fs ow dest = Some (candidate ?b ?e i)
                \<and> \<not> existsSync fs (candidate ?b ?e i)
                \<and> (\<forall>j. 1 \<le> j \<and> j < i \<longrightarrow> existsSync fs (candidate ?b ?e j))"
    by (intro exI[of _ i]) (simp add: resolve_collision_def Let_def)
qed

lemma sample_dest:
  "push_destPath \<lparr>replicateFolders = True, overwriteExisting = False, targetBase = ''/t''\<rparr> plain ''n.md''
   = ''/t/n.md''"
  by (simp add: plain_def push_destPath_def truthy_def path_join_def path_normalize_def
      normalizeString_def normalize_step_def)

lemma sample_extname: "extname ''/t/n.md'' = ''.md''"
  by (simp add: extname_def last_segment_def)

lemma sample_ancestors: "ancestors (dirname ''/t/n.md'') = [''/t'']"
  by (simp add: dirname_def dirname_scan_def ancestors_def)

lemma sample_candidates:
  "candidate ''/t/n'' ''.md'' 1 = ''/t/n-1.md''" "candidate ''/t/n'' ''.md'' 2 = ''/t/n-2.md''"
  by (simp_all add: candidate_def show_nat_small digit_char_def)

lemma sample_candidates_Suc:
  "candidate ''/t/n'' ''.md'' (Suc 0) = ''/t/n-1.md''"
  "candidate ''/t/n'' ''.md'' (Suc (Suc 0)) = ''/t/n-2.md''"
  using sample_candidates by (simp_all only: numeral_2_eq_2 One_nat_def)

lemma pushSingleFile_success:
  assumes run: "pushSingleFile flt now v fs p ctx tr = Some (Inr res, fs')" and doc: "v p = Inr raw"
  shows "push_finalPath fs ctx tr p = Some (finalPath res)
       \<and> read_file fs' (finalPath res) = Some (fst (transformContent now raw tr))"
proof -
  let ?anc = "ancestors (dirname (push_destPath ctx tr p))"
  let ?content = "fst (transformContent now raw tr)"
  from run obtain states where st: "pushSingleFile_steps flt now v fs p ctx tr = Some (Inr res, states)"
    and fs': "fs' = last states"
    by (auto simp: pushSingleFile_def)
  obtain final where fin: "push_finalPath fs ctx tr p = Some final"
    using resolve_collision_total[of "mkdir_recursive fs ?anc" "overwriteExisting ctx"
        "push_destPath ctx tr p"]
    by (auto simp: push_finalPath_def Let_def)
  from pushSingleFile_steps_cases[OF st doc fin]
  obtain ws e where dw: "durable_write flt (mkdir_recursive fs ?anc) final ?content = (ws, e)"
     and states: "states = mkdir_states fs ?anc @ ws"
     and e: "case e of Some x \<Rightarrow> (Inr res :: exn + PushResult) = Inl x
             | None \<Rightarrow> Inr res = (Inr \<lparr>source = p, finalPath = final,
                                       bytes = byteLength ?content,
                                       transformed = snd (transformContent now raw tr)\<rparr> :: exn + PushResult)"
    by auto
  from e have en: "e = None" and fp: "finalPath res = final" by (cases e; auto)+
  have "ws \<noteq> []" using dw by (rule durable_write_nonempty)
  then have "fs' = last ws" using fs' states by simp
  moreover have "fmlookup (last ws) final = Some (File ?content)"
    using durable_write_done[OF dw[unfolded en]] by simp
  ultimately show ?thesis using fin fp by (simp add: read_file_File)
qed

text \<open>
  Claim C4, amended. A successful push writes its content to the path the collision
  resolver returns for the state after the directories were created. The resolver returns
  the destination unchanged when \<open>overwriteExisting\<close> is set or nothing exists at the
  destination; otherwise it returns \<open>base-i-extension\<close> for the smallest \<open>i \<ge> 1\<close> whose
  candidate does not exist. Consequently, when the root and the current directory exist,
  neither the destination nor any candidate exists at the start, and no operation fails,
  \<open>n\<close> consecutive pushes of the same document without overwriting succeed and their
  final paths are the destination, \<open>base-1\<close>, ..., \<open>base-(n-1)\<close>, in this order and
  pairwise distinct.
\<close>

theorem collision_suffix:
  assumes dest: "dest = push_destPath ctx tr p"
      and ext: "ext = extname dest"
      and b: "b = take (length dest - length ext) dest"
  shows "(v p = Inr raw \<and> pushSingleFile flt now v fs p ctx tr = Some (Inr r, fs') \<longrightarrow>
            resolve_collision (mkdir_recursive fs (ancestors (dirname dest)))
              (overwriteExisting ctx) dest = Some (finalPath r)
            \<and> read_file fs' (finalPath r) = Some (fst (transformContent now raw tr)))
       \<and> (overwriteExisting ctx \<or> \<not> existsSync fsr dest \<longrightarrow>
            resolve_collision fsr (overwriteExisting ctx) dest = Some dest)
       \<and> (\<not> overwriteExisting ctx \<and> existsSync fsr dest \<longrightarrow>
            (\<exists>i\<ge>1. resolve_collision fsr (overwriteExisting ctx) dest = Some (candidate b ext i)
                  \<and> \<not> existsSync fsr (candidate b ext i)
                  \<and> (\<forall>j. 1 \<le> j \<and> j < i \<longrightarrow> existsSync fsr (candidate b ext j))))
       \<and> (fault_free flt \<and> v p = Inr raw \<and> \<not> overwriteExisting ctx \<and>
          existsSync fs ''/'' \<and> existsSync fs ''.'' \<and> \<not> existsSync fs dest \<and>
          (\<forall>i\<ge>1. \<not> existsSync fs (candidate b ext i)) \<longrightarrow>
            (\<exists>res fsn. pushMultiple flt clock v fs (replicate n p) ctx tr = Some (Inr res, fsn)
                \<and> failures res = []
                \<and> map finalPath (successes res) =
                    map (\<lambda>j. if j = 0 then dest else candidate b ext j) [0..<n]
                \<and> distinct (map finalPath (successes res))))"
proof (intro conjI impI)
  assume h: "v p = Inr raw \<and> pushSingleFile flt now v fs p ctx tr = Some (Inr r, fs')"
  from pushSingleFile_success[of flt now v fs p ctx tr r fs' raw] h
  have "push_finalPath fs ctx tr p = Some (finalPath r)"
    and rd: "read_file fs' (finalPath r) = Some (fst (transformContent now raw tr))"
    by simp_all
  then show "resolve_collision (mkdir_recursive fs (ancestors (dirname dest)))
              (overwriteExisting ctx) dest = Some (finalPath r)"
    by (simp add: push_finalPath_def Let_def dest)
  from rd show "read_file fs' (finalPath r) = Some (fst (transformContent now raw tr))" .
next
  assume "overwriteExisting ctx \<or> \<not> existsSync fsr dest"
  then show "resolve_collision fsr (overwriteExisting ctx) dest = Some dest"
    using resolve_collision_spec[of "overwriteExisting ctx" fsr dest] by blast
next
  assume "\<not> overwriteExisting ctx \<and> existsSync fsr dest"
  then show "\<exists>i\<ge>1. resolve_collision fsr (overwriteExisting ctx) dest = Some (candidate b ext i)
                  \<and> \<not> existsSync fsr (candidate b ext i)
                  \<and> (\<forall>j. 1 \<le> j \<and> j < i \<longrightarrow> existsSync fsr (candidate b ext j))"
    using resolve_collision_spec[of "overwriteExisting ctx" fsr dest] unfolding b ext by blast
next
  assume h: "fault_free flt \<and> v p = Inr raw \<and> \<not> overwriteExisting ctx \<and>
          existsSync fs ''/'' \<and> existsSync fs ''.'' \<and> \<not> existsSync fs dest \<and>
          (\<forall>i\<ge>1. \<not> existsSync fs (candidate b ext i))"
  then have ff: "fault_free flt" and doc: "v p = Inr raw" and ow: "\<not> overwriteExisting ctx"
    and root: "existsSync fs ''/''" and cwd: "existsSync fs ''.''"
    and i3: "existsSync fs dest \<longleftrightarrow> 0 < (0::nat)"
    and i4: "\<forall>i\<ge>1. existsSync fs (candidate b ext i) \<longleftrightarrow> i < (0::nat)"
    by simp_all
  from consecutive_loop[where v = v and p = p and flt = flt and ctx = ctx and tr = tr
      and fs = fs and k = 0 and n = n and clock = clock and t = 0 and succs = "[]" and fails = "[]",
      OF ff doc ow dest ext b root cwd i3 i4]
  obtain res fsn where
    run: "pushMultiple_loop flt clock v ctx tr (replicate n p) 0 fs [] [] = Some (res, fsn)"
    and fl: "failures res = []"
    and ps: "map finalPath (successes res) =
               map (\<lambda>j. if j = 0 then dest else candidate b ext j) [0..<n]"
    by auto
  have "distinct (map finalPath (successes res))"
    unfolding ps using b by (rule final_paths_distinct)
  with run fl ps
  show "\<exists>res fsn. pushMultiple flt clock v fs (replicate n p) ctx tr = Some (Inr res, fsn)
                \<and> failures res = []
                \<and> map finalPath (successes res) =
                    map (\<lambda>j. if j = 0 then dest else candidate b ext j) [0..<n]
                \<and> distinct (map finalPath (successes res))"
    by (intro exI[of _ res] exI[of _ fsn]) (simp add: pushMultiple_def)
qed

theorem collision_suffix_witness:
  "\<exists>res fsn.
     pushMultiple no_faults still_clock (one_note ''new'')
       (fmupd ''/'' Dir (fmupd ''.'' Dir fmempty)) (replicate 3 ''n.md'')
       \<lparr>replicateFolders = True, overwriteExisting = False, targetBase = ''/t''\<rparr> plain
     = Some (Inr res, fsn)
     \<and> failures res = []
     \<and> map finalPath (successes res) = [''/t/n.md'', ''/t/n-1.md'', ''/t/n-2.md'']"
proof -
  let ?ctx = "\<lparr>replicateFolders = True, overwriteExisting = False, targetBase = ''/t''\<rparr>"
  let ?fs = "fmupd ''/'' Dir (fmupd ''.'' Dir fmempty)"
  let ?v = "one_note ''new''"
  have d: "''/t/n.md'' = push_destPath ?ctx plain ''n.md''" by (simp add: sample_dest)
  have e: "''.md'' = extname ''/t/n.md''" by (simp add: sample_extname)
  have b: "''/t/n'' = take (length ''/t/n.md'' - length ''.md'') ''/t/n.md''" by simp
  have h: "fault_free no_faults \<and> ?v ''n.md'' = Inr ''new'' \<and> \<not> overwriteExisting ?ctx \<and>
          existsSync ?fs ''/'' \<and> existsSync ?fs ''.'' \<and> \<not> existsSync ?fs ''/t/n.md'' \<and>
          (\<forall>i\<ge>1. \<not> existsSync ?fs (candidate ''/t/n'' ''.md'' i))"
    by (simp add: fault_free_def no_faults_def one_note_def existsSync_def candidate_def)
  have m: "map (\<lambda>j. if j = 0 then ''/t/n.md'' else candidate ''/t/n'' ''.md'' j) [0..<3]
           = [''/t/n.md'', ''/t/n-1.md'', ''/t/n-2.md'']"
    by (simp add: upt_rec sample_candidates sample_candidates_Suc)
  from collision_suffix[where dest = "''/t/n.md''" and ext = "''.md''" and b = "''/t/n''"
      and ctx = ?ctx and tr = plain and p = "''n.md''" and flt = no_faults and v = ?v
      and raw = "''new''" and fs = ?fs and n = 3 and clock = still_clock, OF d e b]
  have "fault_free no_faults \<and> ?v ''n.md'' = Inr ''new'' \<and> \<not> overwriteExisting ?ctx \<and>
          existsSync ?fs ''/'' \<and> existsSync ?fs ''.'' \<and> \<not> existsSync ?fs ''/t/n.md'' \<and>
          (\<forall>i\<ge>1. \<not> existsSync ?fs (candidate ''/t/n'' ''.md'' i)) \<longrightarrow>
            (\<exists>res fsn. pushMultiple no_faults still_clock ?v ?fs (replicate 3 ''n.md'') ?ctx plain
                          = Some (Inr res, fsn)
                \<and> failures res = []
                \<and> map finalPath (successes res) =
                    map (\<lambda>j. if j = 0 then ''/t/n.md'' else candidate ''/t/n'' ''.md'' j) [0..<3]
                \<and> distinct (map finalPath (successes res)))"
    by blast
  with h obtain res fsn where
    "pushMultiple no_faults still_clock ?v ?fs (replicate 3 ''n.md'') ?ctx plain
       = Some (Inr res, fsn)"
    "failures res = []"
    "map finalPath (successes res) =
       map (\<lambda>j. if j = 0 then ''/t/n.md'' else candidate ''/t/n'' ''.md'' j) [0..<3]"
    by blast
  then show ?thesis
    by (intro exI[of _ res] exI[of _ fsn]) (simp only: m simp_thms)
qed

text \<open>
  Claim C4, as stated, fails in its second part. The target holds \<open>/t/n-1.md\<close> but not
  \<open>/t/n.md\<close>; two consecutive pushes of \<open>n.md\<close> without overwriting go to \<open>/t/n.md\<close>
  and \<open>/t/n-2.md\<close>, not to \<open>/t/n.md\<close> and \<open>/t/n-1.md\<close>.
\<close>

theorem consecutive_pushes_counterexample:
  "batch_finalPaths
     (pushMultiple no_faults still_clock (one_note ''new'')
        (fmupd ''/t/n-1.md'' (File ''x'') (fmupd ''/'' Dir (fmupd ''.'' Dir fmempty)))
        [''n.md'', ''n.md'']
        \<lparr>replicateFolders = True, overwriteExisting = False, targetBase = ''/t''\<rparr> plain)
   = Some [''/t/n.md'', ''/t/n-2.md'']
   \<and> batch_finalPaths
     (pushMultiple no_faults still_clock (one_note ''new'')
        (fmupd ''/t/n-1.md'' (File ''x'') (fmupd ''/'' Dir (fmupd ''.'' Dir fmempty)))
        [''n.md'', ''n.md'']
        \<lparr>replicateFolders = True, overwriteExisting = False, targetBase = ''/t''\<rparr> plain)
   \<noteq> Some [''/t/n.md'', ''/t/n-1.md'']"
proof -
  let ?ctx = "\<lparr>replicateFolders = True, overwriteExisting = False, targetBase = ''/t''\<rparr>"
  let ?fs = "fmupd ''/t/n-1.md'' (File ''x'') (fmupd ''/'' Dir (fmupd ''.'' Dir fmempty))"
  let ?v = "one_note ''new''"
  have ff: "fault_free no_faults" by (simp add: fault_free_def no_faults_def)
  have doc: "?v ''n.md'' = Inr ''new''" by (simp add: one_note_def)
  have fin1: "push_finalPath ?fs ?ctx plain ''n.md'' = Some ''/t/n.md''"
    by (simp add: push_finalPath_def sample_dest sample_ancestors resolve_collision_def
        existsSync_mkdir_recursive) (simp add: existsSync_def)
  from push_fault_free[where flt = no_faults and v = ?v and p = "''n.md''" and raw = "''new''"
      and fs = ?fs and ctx = ?ctx and tr = plain and final = "''/t/n.md''" and now = new_year,
      OF ff doc fin1]
  obtain r1 fs1 where run1: "pushSingleFile no_faults new_year ?v ?fs ''n.md'' ?ctx plain = Some (Inr r1, fs1)"
    and fp1: "finalPath r1 = ''/t/n.md''"
    and look1: "\<And>q. fmlookup fs1 q =
                  (if q = ''/t/n.md'' then Some (File (fst (transformContent new_year ''new'' plain)))
                   else if q = ''/t/n.md'' @ ''.tmp'' then None
                   else fmlookup (mkdir_recursive ?fs (ancestors (dirname
                          (push_destPath ?ctx plain ''n.md'')))) q)"
    by blast
  have ex1: "existsSync fs1 ''/t/n.md''" "existsSync fs1 ''/t/n-1.md''" "\<not> existsSync fs1 ''/t/n-2.md''"
    using look1[of "''/t/n.md''"] look1[of "''/t/n-1.md''"] look1[of "''/t/n-2.md''"]
      existsSync_mkdir_recursive[of ?fs "[''/t'']"]
    by (simp_all add: existsSync_def sample_dest sample_ancestors)
  have ff2: "find_free (mkdir_recursive fs1 [''/t'']) ''/t/n'' ''.md'' 1 = Some (1 + 1)"
    by (rule find_free_run)
       (use ex1 in \<open>simp_all add: sample_candidates_Suc existsSync_mkdir_recursive\<close>)
  have fin2: "push_finalPath fs1 ?ctx plain ''n.md'' = Some ''/t/n-2.md''"
    using ex1 ff2
    by (simp add: push_finalPath_def sample_dest sample_ancestors resolve_collision_def
        existsSync_mkdir_recursive sample_extname sample_candidates sample_candidates_Suc)
  from push_fault_free[where flt = no_faults and v = ?v and p = "''n.md''" and raw = "''new''"
      and fs = fs1 and ctx = ?ctx and tr = plain and final = "''/t/n-2.md''" and now = new_year,
      OF ff doc fin2]
  obtain r2 fs2 where run2: "pushSingleFile no_faults new_year ?v fs1 ''n.md'' ?ctx plain = Some (Inr r2, fs2)"
    and fp2: "finalPath r2 = ''/t/n-2.md''"
    by blast
  have "batch_finalPaths
          (pushMultiple no_faults still_clock ?v ?fs [''n.md'', ''n.md''] ?ctx plain)
        = Some [''/t/n.md'', ''/t/n-2.md'']"
    using run1 run2 fp1 fp2 by (simp add: batch_finalPaths_def pushMultiple_def still_clock_def)
  then show ?thesis by simp
qed

section \<open>A batch with one failure\<close>

text \<open>
  An instance of the batch: three inputs, the second of which cannot be read. The first
  and the third succeed, in this order, and the one failure carries the path of the
  second and the message of the error thrown.
\<close>

theorem pushMultiple_partition_witness:
  "\<exists>res fsn.
     pushMultiple no_faults still_clock (one_note ''new'') fmempty [''n.md'', ''gone.md'', ''n.md'']
       \<lparr>replicateFolders = True, overwriteExisting = True, targetBase = ''/t''\<rparr> plain
     = Some (Inr res, fsn)
     \<and> map source (successes res) = [''n.md'', ''n.md'']
     \<and> failures res = [\<lparr>file' = ''gone.md'', error = ''File not found'', code = None\<rparr>]"
proof -
  let ?ctx = "\<lparr>replicateFolders = True, overwriteExisting = True, targetBase = ''/t''\<rparr>"
  let ?v = "one_note ''new''"
  let ?files = "[''n.md'', ''gone.md'', ''n.md'']"
  have ff: "fault_free no_faults" by (simp add: fault_free_def no_faults_def)
  have doc: "?v ''n.md'' = Inr ''new''" by (simp add: one_note_def)
  have fin: "push_finalPath fs ?ctx plain ''n.md'' = Some (push_destPath ?ctx plain ''n.md'')" for fs
    by (simp add: push_finalPath_def resolve_collision_def)
  from push_fault_free[where flt = no_faults and v = ?v and p = "''n.md''" and raw = "''new''"
      and fs = fmempty and ctx = ?ctx and tr = plain and now = new_year, OF ff doc fin]
  obtain ra fsa where runa: "pushSingleFile no_faults new_year ?v fmempty ''n.md'' ?ctx plain = Some (Inr ra, fsa)"
    by blast
  have runb: "pushSingleFile no_faults new_year ?v fsa ''gone.md'' ?ctx plain
                = Some (Inl (Error ''File not found'' None), fsa)"
    by (simp add: pushSingleFile_def pushSingleFile_steps_def one_note_def)
  from push_fault_free[where flt = no_faults and v = ?v and p = "''n.md''" and raw = "''new''"
      and fs = fsa and ctx = ?ctx and tr = plain and now = new_year, OF ff doc fin]
  obtain rc fsc where runc: "pushSingleFile no_faults new_year ?v fsa ''n.md'' ?ctx plain = Some (Inr rc, fsc)"
    by blast
  have each: "push_each no_faults still_clock ?v ?ctx plain ?files 0 fmempty
                = Some ([Inr ra, Inl (Error ''File not found'' None), Inr rc], fsc)"
    using runa runb runc by (simp add: still_clock_def)
  from pushMultiple_partition[of no_faults still_clock ?v ?ctx plain ?files fmempty]
  obtain outs fsn res where
    pe: "push_each no_faults still_clock ?v ?ctx plain ?files 0 fmempty = Some (outs, fsn)"
    and run: "pushMultiple no_faults still_clock ?v fmempty ?files ?ctx plain = Some (Inr res, fsn)"
    and su: "successes res = map projr (filter (\<lambda>out. \<not> isl out) outs)"
    and fa: "failures res = map (\<lambda>(f, out). to_failure f (projl out))
                               (filter (\<lambda>(f, out). isl out) (zip ?files outs))"
    and src: "map source (successes res) = map fst (filter (\<lambda>(f, out). \<not> isl out) (zip ?files outs))"
    by blast
  from pe each have outs: "outs = [Inr ra, Inl (Error ''File not found'' None), Inr rc]" by simp
  have s2: "map source (successes res) = [''n.md'', ''n.md'']" using src outs by simp
  have f2: "failures res = [\<lparr>file' = ''gone.md'', error = ''File not found'', code = None\<rparr>]"
    using fa outs by (simp add: to_failure_def)
  show ?thesis
    by (rule exI[of _ res], rule exI[of _ fsn]) (simp only: run s2 f2 simp_thms)
qed

section \<open>Forced extension\<close>

text \<open>The example of the specification: the last extension is replaced.\<close>

lemma forceExtension_example:
  "push_destPath
     \<lparr>replicateFolders = True, overwriteExisting = True, targetBase = ''/t''\<rparr>
     \<lparr>sanitizeFrontmatter = False, addTimestampHeader = False, timestampFormat = [],
      forceExtension = Some ''.txt''\<rparr>
     ''notes/x.markdown''
   = ''/t/notes/x.txt''"
  by (simp add: push_destPath_def truthy_def ext_match_here_def path_join_def path_normalize_def
      normalizeString_def normalize_step_def)

text \<open>
  Claim C6: with a forced extension the resolver removes only the last extension of the
  final segment of the path, nothing when that segment has none, and never alters a
  directory component. The code does otherwise at the logical path \<open>my.folder/note\<close>
  with folders replicated and the forced extension \<open>.txt\<close>: the final segment \<open>note\<close>
  has no extension, yet the pattern \<open>/\.[^.]+$/\<close> matches \<open>.folder/note\<close>, because
  \<open>[^.]\<close> accepts the separator. The directory component is cut and the document lands
  at \<open>/t/my.txt\<close> instead of \<open>/t/my.folder/note.txt\<close>.
\<close>

theorem forceExtension_cuts_directory:
  "push_destPath
     \<lparr>replicateFolders = True, overwriteExisting = True, targetBase = ''/t''\<rparr>
     \<lparr>sanitizeFrontmatter = False, addTimestampHeader = False, timestampFormat = [],
      forceExtension = Some ''.txt''\<rparr>
     ''my.folder/note''
   = ''/t/my.txt''"
  by (simp add: push_destPath_def truthy_def ext_match_here_def path_join_def path_normalize_def
      normalizeString_def normalize_step_def)

end
